theory Spec2Isabelle
  imports Complex_Main "HOL-Library.Char_ord" "HOL-Library.List_Lexorder" "HOL-Library.Multiset"
begin

section \<open>Audit dashboard: scoring, loading and filtering of Markdown reports\<close>

text \<open>
  A shallow embedding of \<^verbatim>\<open>DashAuditFinal.py\<close>: the scoring functions
  (\<^verbatim>\<open>extract_self_grade_score\<close>, \<^verbatim>\<open>count_severities\<close>,
  \<^verbatim>\<open>severity_penalty_score\<close>, \<^verbatim>\<open>combine_scores\<close>), the fallback renderer
  \<^verbatim>\<open>render_markdown\<close>, the loader \<^verbatim>\<open>load_reports\<close> and the filter of the
  dashboard's \<^verbatim>\<open>renderList\<close>.

  Conventions of the model.
  \<^item> A Python \<^verbatim>\<open>str\<close> is a \<^typ>\<open>string\<close>; a \<^typ>\<open>char\<close> stands for the code point
    of the same number, so the model covers texts over the code points 0 to 255. The character
    classes below are those of Python 3 on these code points.
  \<^item> A Python \<^verbatim>\<open>float\<close> is the \<^typ>\<open>real\<close> it denotes. The severity score is
    an integer between 1 and 100, which binary floating point represents exactly, and the
    properties below are stated for such scores: there the exact arithmetic of the model
    and the floating point arithmetic of the code give the same result.
  \<^item> A Python \<^verbatim>\<open>int\<close> is an \<^typ>\<open>int\<close>, a \<^verbatim>\<open>dict\<close> a map.
\<close>

subsection \<open>Characters\<close>

text \<open>\<^verbatim>\<open>str.isspace\<close>, which is also the class \<^verbatim>\<open>\s\<close> of \<^verbatim>\<open>re\<close> on \<^verbatim>\<open>str\<close> patterns.\<close>

definition py_isspace :: "char \<Rightarrow> bool" where
  "py_isspace c =
     (let n = (of_char c :: nat)
      in (9 \<le> n \<and> n \<le> 13) \<or> (28 \<le> n \<and> n \<le> 32) \<or> n = 133 \<or> n = 160)"

text \<open>The class \<^verbatim>\<open>\w\<close>: alphanumeric characters and the underscore.\<close>

definition py_isword :: "char \<Rightarrow> bool" where
  "py_isword c =
     (let n = (of_char c :: nat)
      in (48 \<le> n \<and> n \<le> 57) \<or> (65 \<le> n \<and> n \<le> 90) \<or> n = 95 \<or> (97 \<le> n \<and> n \<le> 122)
         \<or> n = 170 \<or> n = 178 \<or> n = 179 \<or> n = 181 \<or> n = 185 \<or> n = 186
         \<or> (188 \<le> n \<and> n \<le> 190) \<or> (192 \<le> n \<and> n \<le> 214)
         \<or> (216 \<le> n \<and> n \<le> 246) \<or> 248 \<le> n)"

text \<open>Lower case of one character (\<^verbatim>\<open>str.lower\<close>, and \<^verbatim>\<open>toLowerCase\<close> of JavaScript).\<close>

definition py_lower :: "char \<Rightarrow> char" where
  "py_lower c =
     (let n = (of_char c :: nat)
      in if (65 \<le> n \<and> n \<le> 90) \<or> (192 \<le> n \<and> n \<le> 214) \<or> (216 \<le> n \<and> n \<le> 222)
         then char_of (n + 32) else c)"

text \<open>
  Upper case of one character. The three characters whose upper case lies beyond code point
  255 (181, 223 and 255) are left as they are; the source applies \<^verbatim>\<open>upper\<close> to a
  letter between a and f only.
\<close>

definition py_upper :: "char \<Rightarrow> char" where
  "py_upper c =
     (let n = (of_char c :: nat)
      in if (97 \<le> n \<and> n \<le> 122) \<or> (224 \<le> n \<and> n \<le> 246) \<or> (248 \<le> n \<and> n \<le> 254)
         then char_of (n - 32) else c)"

text \<open>\<^verbatim>\<open>str.strip()\<close> removes white space at both ends.\<close>

definition py_strip :: "string \<Rightarrow> string" where
  "py_strip s = rev (dropWhile py_isspace (rev (dropWhile py_isspace s)))"

subsection \<open>Regular expressions\<close>

text \<open>
  The patterns of the source are values of \<open>rx\<close>, and \<open>rx_match\<close> is the backtracking
  matcher of \<^verbatim>\<open>re\<close>: it returns, in the order in which backtracking tries them, the
  states in which a match of the pattern started in the given state can end. A state is
  the position in the text and the spans of the groups captured so far. Repetition is
  greedy, and is needed for single characters of a class only.
\<close>

record flags =
  ignorecase :: bool
  multiline :: bool

datatype cls = Chars string | Space | Dot | Either cls cls

datatype rx =
    Lit string
  | One cls
  | Bnd
  | Bol
  | Eol
  | Seq rx rx
  | Alt rx rx
  | Opt rx
  | Star cls
  | Plus cls
  | Grp nat rx

type_synonym caps = "(nat \<times> nat \<times> nat) list"

type_synonym mstate = "nat \<times> caps"

primrec in_cls :: "flags \<Rightarrow> cls \<Rightarrow> char \<Rightarrow> bool" where
  "in_cls fl (Chars s) c =
     (if ignorecase fl then py_lower c \<in> set (map py_lower s) else c \<in> set s)"
| "in_cls fl Space c = py_isspace c"
| "in_cls fl Dot c = (c \<noteq> CHR 0x0A)"
| "in_cls fl (Either a b) c = (in_cls fl a c \<or> in_cls fl b c)"

definition lit_at :: "flags \<Rightarrow> string \<Rightarrow> nat \<Rightarrow> string \<Rightarrow> bool" where
  "lit_at fl t p w =
     (p + length w \<le> length t \<and>
      (if ignorecase fl
       then map py_lower (take (length w) (drop p t)) = map py_lower w
       else take (length w) (drop p t) = w))"

definition word_at :: "string \<Rightarrow> nat \<Rightarrow> bool" where
  "word_at t p = (p < length t \<and> py_isword (t ! p))"

definition word_before :: "string \<Rightarrow> nat \<Rightarrow> bool" where
  "word_before t p = (0 < p \<and> p \<le> length t \<and> py_isword (t ! (p - 1)))"

text \<open>\<^verbatim>\<open>\b\<close>: a word character on exactly one side; beyond the text there is none.\<close>

definition word_boundary :: "string \<Rightarrow> nat \<Rightarrow> bool" where
  "word_boundary t p = (word_before t p \<noteq> word_at t p)"

text \<open>\<^verbatim>\<open>^\<close> and \<^verbatim>\<open>$\<close>, with and without \<^verbatim>\<open>re.MULTILINE\<close>.\<close>

definition line_start :: "flags \<Rightarrow> string \<Rightarrow> nat \<Rightarrow> bool" where
  "line_start fl t p = (p = 0 \<or> (multiline fl \<and> p \<le> length t \<and> t ! (p - 1) = CHR 0x0A))"

definition line_end :: "flags \<Rightarrow> string \<Rightarrow> nat \<Rightarrow> bool" where
  "line_end fl t p =
     (p = length t \<or> (p < length t \<and> t ! p = CHR 0x0A \<and> (multiline fl \<or> Suc p = length t)))"

text \<open>The number of consecutive characters of a class from a position on.\<close>

definition cls_run :: "flags \<Rightarrow> cls \<Rightarrow> string \<Rightarrow> nat \<Rightarrow> nat" where
  "cls_run fl c t p = length (takeWhile (in_cls fl c) (drop p t))"

primrec rx_match :: "flags \<Rightarrow> string \<Rightarrow> rx \<Rightarrow> mstate \<Rightarrow> mstate list" where
  "rx_match fl t (Lit w) s =
     (if lit_at fl t (fst s) w then [(fst s + length w, snd s)] else [])"
| "rx_match fl t (One c) s =
     (if fst s < length t \<and> in_cls fl c (t ! fst s) then [(Suc (fst s), snd s)] else [])"
| "rx_match fl t Bnd s = (if word_boundary t (fst s) then [s] else [])"
| "rx_match fl t Bol s = (if line_start fl t (fst s) then [s] else [])"
| "rx_match fl t Eol s = (if line_end fl t (fst s) then [s] else [])"
| "rx_match fl t (Seq a b) s = concat (map (rx_match fl t b) (rx_match fl t a s))"
| "rx_match fl t (Alt a b) s = rx_match fl t a s @ rx_match fl t b s"
| "rx_match fl t (Opt a) s = rx_match fl t a s @ [s]"
| "rx_match fl t (Star c) s =
     map (\<lambda>k. (fst s + k, snd s)) (rev [0..<Suc (cls_run fl c t (fst s))])"
| "rx_match fl t (Plus c) s =
     map (\<lambda>k. (fst s + k, snd s)) (rev [1..<Suc (cls_run fl c t (fst s))])"
| "rx_match fl t (Grp n a) s =
     map (\<lambda>s'. (fst s', (n, (fst s, fst s')) # snd s')) (rx_match fl t a s)"

text \<open>
  \<^verbatim>\<open>re.search\<close> tries the start positions from left to right and returns the first
  match that backtracking finds at the first position that has one: the start and the
  final state.
\<close>

primrec first_match :: "flags \<Rightarrow> rx \<Rightarrow> string \<Rightarrow> nat list \<Rightarrow> (nat \<times> mstate) option" where
  "first_match fl r t [] = None"
| "first_match fl r t (p # ps) =
     (case rx_match fl t r (p, []) of
        [] \<Rightarrow> first_match fl r t ps
      | s # _ \<Rightarrow> Some (p, s))"

definition re_search :: "flags \<Rightarrow> rx \<Rightarrow> string \<Rightarrow> (nat \<times> mstate) option" where
  "re_search fl r t = first_match fl r t [0..<Suc (length t)]"

text \<open>
  \<^verbatim>\<open>m.group(n)\<close>. A group that took no part in the match has no span; the groups of the
  patterns below always take part.
\<close>

definition group :: "string \<Rightarrow> nat \<times> mstate \<Rightarrow> nat \<Rightarrow> string" where
  "group t m n =
     (case map_of (snd (snd m)) n of
        None \<Rightarrow> []
      | Some (a, b) \<Rightarrow> take (b - a) (drop a t))"

text \<open>
  \<^verbatim>\<open>re.findall\<close> returns the matches that do not overlap, scanning from the left: after a
  match the scan goes on where the match ended. The spans of the matches are returned.
  An empty match moves the scan one character on; the patterns counted below match no
  empty string.
\<close>

function re_findall :: "flags \<Rightarrow> rx \<Rightarrow> string \<Rightarrow> nat \<Rightarrow> (nat \<times> nat) list" where
  "re_findall fl r t p =
     (if length t < p then []
      else case rx_match fl t r (p, []) of
             [] \<Rightarrow> re_findall fl r t (Suc p)
           | s # _ \<Rightarrow> (p, fst s) # re_findall fl r t (if p < fst s then fst s else Suc p))"
  by pat_completeness auto
termination
  by (relation "measure (\<lambda>(fl, r, t, p). Suc (length t) - p)") auto

declare re_findall.simps [simp del]

text \<open>The inline flag \<^verbatim>\<open>(?i)\<close>, and \<^verbatim>\<open>re.MULTILINE\<close>.\<close>

definition flags_i :: flags where
  "flags_i = \<lparr>ignorecase = True, multiline = False\<rparr>"

definition flags_m :: flags where
  "flags_m = \<lparr>ignorecase = False, multiline = True\<rparr>"

text \<open>\<^verbatim>\<open>\b(self[-\s]?grade|grade)\s*[:\-]\s*([ABCDEF])\b\<close>\<close>

definition grade_rx :: rx where
  "grade_rx =
     Seq Bnd
    (Seq (Grp 1 (Alt (Seq (Lit ''self'')
                     (Seq (Opt (One (Either (Chars ''-'') Space))) (Lit ''grade'')))
                     (Lit ''grade'')))
    (Seq (Star Space)
    (Seq (One (Chars '':-''))
    (Seq (Star Space)
    (Seq (Grp 2 (One (Chars ''ABCDEF'')))
         Bnd)))))"

text \<open>\<^verbatim>\<open>\b{level}\b\<close>\<close>

definition level_rx :: "string \<Rightarrow> rx" where
  "level_rx level = Seq Bnd (Seq (Lit level) Bnd)"

text \<open>\<^verbatim>\<open>^\s*#\s+(.+)$\<close>\<close>

definition heading_rx :: rx where
  "heading_rx =
     Seq Bol
    (Seq (Star Space)
    (Seq (Lit ''#'')
    (Seq (Plus Space)
    (Seq (Grp 1 (Plus Dot))
         Eol))))"

subsection \<open>Scoring logic\<close>

text \<open>\<^verbatim>\<open>d.get(k, dflt)\<close>\<close>

definition dict_get :: "('k \<rightharpoonup> 'v) \<Rightarrow> 'k \<Rightarrow> 'v \<Rightarrow> 'v" where
  "dict_get d k dflt = (case d k of None \<Rightarrow> dflt | Some v \<Rightarrow> v)"

definition grade_mapping :: "string \<rightharpoonup> real" where
  "grade_mapping =
     [''A'' \<mapsto> 95, ''B'' \<mapsto> 85, ''C'' \<mapsto> 75, ''D'' \<mapsto> 60, ''E'' \<mapsto> 40, ''F'' \<mapsto> 40]"

definition extract_self_grade_score :: "string \<Rightarrow> real" where
  "extract_self_grade_score md_text =
     (case re_search flags_i grade_rx md_text of
        None \<Rightarrow> - 1
      | Some m \<Rightarrow>
          (let letter = map py_upper (group md_text m 2)
           in dict_get grade_mapping letter (- 1)))"

definition sev_init :: "string \<rightharpoonup> int" where
  "sev_init = [''critical'' \<mapsto> 0, ''high'' \<mapsto> 0, ''medium'' \<mapsto> 0, ''low'' \<mapsto> 0]"

text \<open>\<^verbatim>\<open>list(sev.keys())\<close>: the keys in the order of insertion.\<close>

definition sev_keys :: "string list" where
  "sev_keys = [''critical'', ''high'', ''medium'', ''low'']"

definition count_severities :: "string \<Rightarrow> (string \<rightharpoonup> int)" where
  "count_severities md_text =
     foldl (\<lambda>sev level.
              sev(level \<mapsto> int (length (re_findall flags_i (level_rx level) md_text 0))))
       sev_init sev_keys"

definition severity_penalty_score :: "(string \<rightharpoonup> int) \<Rightarrow> real" where
  "severity_penalty_score sev =
     (let base = 100;
          base = base - min (of_int (dict_get sev ''critical'' 0) * 25) 60;
          base = base - min (of_int (dict_get sev ''high'' 0) * 15) 45;
          base = base - min (of_int (dict_get sev ''medium'' 0) * 7) 35;
          base = base - min (of_int (dict_get sev ''low'' 0) * 2) 10
      in max 1 (min 100 base))"

text \<open>
  \<^verbatim>\<open>round(x, 1)\<close>: the nearest multiple of one tenth, a tie going to the even one.
\<close>

definition round_half_even :: "real \<Rightarrow> int" where
  "round_half_even y =
     (let f = \<lfloor>y\<rfloor>; d = y - of_int f
      in if d < 1 / 2 then f
         else if 1 / 2 < d then f + 1
         else if even f then f else f + 1)"

definition py_round1 :: "real \<Rightarrow> real" where
  "py_round1 x = of_int (round_half_even (x * 10)) / 10"

text \<open>
  The weighted mean is computed exactly. For an integral score and a grade of the table,
  \<open>0.6 s + 0.4 g\<close> is an even number of tenths, so the rounding error of floating point
  does not change the rounded result, and the model agrees with the code; the only caller
  passes the integral score of \<open>severity_penalty_score\<close>. For other scores the two can
  differ by one tenth (with the score 4.25 and the grade 95 the code returns 40.5, exact
  arithmetic gives 40.6), and the claims below are not stated for them.
\<close>

definition combine_scores :: "real \<Rightarrow> real \<Rightarrow> real" where
  "combine_scores self_grade sev_score =
     (if self_grade < 0 then py_round1 sev_score
      else py_round1 (0.6 * sev_score + 0.4 * self_grade))"

subsection \<open>Markdown renderer\<close>

text \<open>
  \<^verbatim>\<open>str.replace(old, new)\<close>: the occurrences of \<open>old\<close> that do not overlap, from the
  left; an empty \<open>old\<close> matches before every character and at the end.
\<close>

function py_replace :: "string \<Rightarrow> string \<Rightarrow> string \<Rightarrow> string" where
  "py_replace old new s =
     (if old = [] then new @ concat (map (\<lambda>c. c # new) s)
      else if s = [] then []
      else if take (length old) s = old then new @ py_replace old new (drop (length old) s)
      else hd s # py_replace old new (tl s))"
  by pat_completeness auto
termination
  by (relation "measure (\<lambda>(old, new, s). length s)") (auto simp: neq_Nil_conv)

declare py_replace.simps [simp del]

text \<open>
  The \<^verbatim>\<open>markdown\<close> package is not part of the repository: \<open>None\<close> is a failing
  \<^verbatim>\<open>import\<close>, and the function returns \<open>None\<close> where \<^verbatim>\<open>markdown.markdown\<close> raises.
\<close>

type_synonym renderer = "(string \<Rightarrow> string option) option"

definition render_markdown :: "renderer \<Rightarrow> string \<Rightarrow> string" where
  "render_markdown lib md_text =
     (case (case lib of None \<Rightarrow> None | Some markdown \<Rightarrow> markdown md_text) of
        Some html \<Rightarrow> html
      | None \<Rightarrow>
          (let safe = py_replace ''>'' ''&gt;''
                        (py_replace ''<'' ''&lt;'' (py_replace ''&'' ''&amp;'' md_text))
           in ''<pre>'' @ safe @ ''</pre>''))"

subsection \<open>Data model and loader\<close>

record ReportItem =
  filename :: string
  title :: string
  html :: string
  text_field :: string
  severity :: "string \<rightharpoonup> int"
  self_grade_score :: real
  severity_score :: real
  final_score :: real
  mtime :: string

text \<open>
  A path is the list of its components; \<^verbatim>\<open>pathlib\<close> compares paths as these lists,
  component by component, and a component character by character.
\<close>

type_synonym path = "string list"

definition path_name :: "path \<Rightarrow> string" where
  "path_name p = (if p = [] then [] else last p)"

text \<open>\<^verbatim>\<open>str.rfind\<close> of one character: the index of its last occurrence.\<close>

definition rfind :: "string \<Rightarrow> char \<Rightarrow> nat option" where
  "rfind s c =
     (case filter (\<lambda>i. s ! i = c) (rev [0..<length s]) of [] \<Rightarrow> None | i # _ \<Rightarrow> Some i)"

text \<open>\<^verbatim>\<open>p.stem\<close>: the name without its last suffix.\<close>

definition path_stem :: "path \<Rightarrow> string" where
  "path_stem p =
     (let name = path_name p
      in case rfind name CHR ''.'' of
           None \<Rightarrow> name
         | Some i \<Rightarrow> if 0 < i \<and> i < length name - 1 then take i name else name)"

text \<open>
  What the loader reads from its surroundings: the files the two globs enumerate, in the
  order of the file system; the text of a file, \<open>None\<close> where \<^verbatim>\<open>read_text\<close> raises; the
  formatted modification time; the \<^verbatim>\<open>markdown\<close> package. Enumerating the files and
  reading the modification time of a file that has been read are taken to succeed.
\<close>

record env =
  glob :: "path \<Rightarrow> string \<Rightarrow> path list"
  rglob :: "path \<Rightarrow> string \<Rightarrow> path list"
  read_text :: "path \<Rightarrow> string option"
  stat_mtime :: "path \<Rightarrow> string"
  markdown_lib :: renderer

definition heading_title :: "string \<Rightarrow> string \<Rightarrow> string" where
  "heading_title md stem =
     (case re_search flags_m heading_rx md of
        None \<Rightarrow> stem
      | Some m \<Rightarrow> py_strip (group md m 1))"

text \<open>The body of the loop of \<^verbatim>\<open>load_reports\<close>, after the file has been read.\<close>

definition load_report :: "env \<Rightarrow> path \<Rightarrow> string \<Rightarrow> ReportItem" where
  "load_report e p md =
     (let html = render_markdown (markdown_lib e) md;
          sev = count_severities md;
          ss = severity_penalty_score sev;
          gs = extract_self_grade_score md;
          fs = combine_scores gs ss;
          title = heading_title md (path_stem p);
          mtime = stat_mtime e p
      in \<lparr>filename = path_name p, title = title, html = html, text_field = md, severity = sev,
          self_grade_score = gs, severity_score = ss, final_score = fs, mtime = mtime\<rparr>)"

fun load_loop :: "env \<Rightarrow> path list \<Rightarrow> ReportItem list \<Rightarrow> ReportItem list" where
  "load_loop e [] out = out"
| "load_loop e (p # ps) out =
     (case read_text e p of
        None \<Rightarrow> load_loop e ps out
      | Some md \<Rightarrow> load_loop e ps (out @ [load_report e p md]))"

definition load_reports :: "env \<Rightarrow> path \<Rightarrow> bool \<Rightarrow> string \<Rightarrow> ReportItem list" where
  "load_reports e root_dir recursive pattern =
     (let files = (if recursive then rglob e root_dir pattern else glob e root_dir pattern)
      in load_loop e (sort files) [])"

subsection \<open>The filter of the dashboard\<close>

text \<open>
  The state of the controls that \<^verbatim>\<open>renderList\<close> reads: the search box, the slider of the
  minimum score, and the severity chips that are active.
\<close>

record controls =
  q_value :: string
  min_score :: real
  active_chips :: "string list"

definition toLowerCase :: "string \<Rightarrow> string" where
  "toLowerCase s = map py_lower s"

text \<open>\<^verbatim>\<open>s.includes(q)\<close>: \<open>q\<close> occurs in \<open>s\<close> at some position.\<close>

definition js_includes :: "string \<Rightarrow> string \<Rightarrow> bool" where
  "js_includes s q =
     list_ex (\<lambda>k. k + length q \<le> length s \<and> take (length q) (drop k s) = q)
       [0..<Suc (length s)]"

text \<open>\<^verbatim>\<open>Math.round\<close>: the nearest integer, a tie going up.\<close>

definition Math_round :: "real \<Rightarrow> int" where
  "Math_round x = \<lfloor>x + 1 / 2\<rfloor>"

text \<open>The array \<^verbatim>\<open>arr\<close> of \<^verbatim>\<open>renderList\<close> before it is sorted.\<close>

definition renderList_arr :: "ReportItem list \<Rightarrow> controls \<Rightarrow> ReportItem list" where
  "renderList_arr DATA ui =
     (let q = toLowerCase (q_value ui);
          minScore = min_score ui;
          chips = active_chips ui;
          arr = filter (\<lambda>it. js_includes (toLowerCase (title it)) q
                              \<or> js_includes (toLowerCase (filename it)) q) DATA;
          arr = filter (\<lambda>it. minScore \<le> of_int (Math_round (final_score it))) arr
      in if chips \<noteq> []
         then filter (\<lambda>it. list_ex (\<lambda>c. 0 < dict_get (severity it) c 0) chips) arr
         else arr)"

subsection \<open>The properties, in the words of the specification\<close>

definition clamp :: "real \<Rightarrow> real \<Rightarrow> real \<Rightarrow> real" where
  "clamp x lo hi = (if x < lo then lo else if hi < x then hi else x)"

text \<open>The severity score as the specification writes it, for the four counts.\<close>

definition spec_severity_score :: "int \<Rightarrow> int \<Rightarrow> int \<Rightarrow> int \<Rightarrow> real" where
  "spec_severity_score c h m l =
     clamp (100 - min (25 * of_int c) 60 - min (15 * of_int h) 45
                - min (7 * of_int m) 35 - min (2 * of_int l) 10) 1 100"

text \<open>The escaped plain text: each of the three characters replaced by its entity.\<close>

definition html_escape_char :: "char \<Rightarrow> string" where
  "html_escape_char c =
     (if c = CHR ''&'' then ''&amp;''
      else if c = CHR ''<'' then ''&lt;''
      else if c = CHR ''>'' then ''&gt;''
      else [c])"

definition html_escape :: "string \<Rightarrow> string" where
  "html_escape s = concat (map html_escape_char s)"

text \<open>The renderer is unavailable, or fails on the text.\<close>

definition renderer_fails :: "renderer \<Rightarrow> string \<Rightarrow> bool" where
  "renderer_fails lib md = (case lib of None \<Rightarrow> True | Some markdown \<Rightarrow> markdown md = None)"

text \<open>The three predicates of the aggregator's filter.\<close>

definition text_matches :: "string \<Rightarrow> ReportItem \<Rightarrow> bool" where
  "text_matches query it =
     (js_includes (toLowerCase (title it)) (toLowerCase query)
      \<or> js_includes (toLowerCase (filename it)) (toLowerCase query))"

definition score_at_least :: "real \<Rightarrow> ReportItem \<Rightarrow> bool" where
  "score_at_least threshold it = (threshold \<le> of_int (Math_round (final_score it)))"

definition any_level_present :: "string list \<Rightarrow> ReportItem \<Rightarrow> bool" where
  "any_level_present levels it = list_ex (\<lambda>c. dict_get (severity it) c 0 \<noteq> 0) levels"

text \<open>The record of a source, if the source can be read; the sources a batch enumerates.\<close>

definition read_record :: "env \<Rightarrow> path \<Rightarrow> ReportItem option" where
  "read_record e p = map_option (load_report e p) (read_text e p)"

definition readable :: "env \<Rightarrow> path \<Rightarrow> bool" where
  "readable e p = (read_text e p \<noteq> None)"

definition listing :: "env \<Rightarrow> path \<Rightarrow> bool \<Rightarrow> string \<Rightarrow> path list" where
  "listing e root_dir recursive pattern =
     (if recursive then rglob e root_dir pattern else glob e root_dir pattern)"

text \<open>
  The word \<open>w\<close> stands in the text \<open>t\<close> at position \<open>i\<close>, in upper or lower case, with a
  word boundary before and after it; the number of such positions.
\<close>

definition ci_at :: "string \<Rightarrow> nat \<Rightarrow> string \<Rightarrow> bool" where
  "ci_at t i w =
     (i + length w \<le> length t \<and> map py_lower (take (length w) (drop i t)) = map py_lower w)"

definition occurs_at :: "string \<Rightarrow> string \<Rightarrow> nat \<Rightarrow> bool" where
  "occurs_at w t i = (ci_at t i w \<and> word_boundary t i \<and> word_boundary t (i + length w))"

definition occurrences :: "string \<Rightarrow> string \<Rightarrow> nat" where
  "occurrences w t = length (filter (occurs_at w t) [0..<Suc (length t)])"

text \<open>The position after the white space that starts at a position.\<close>

definition skip_space :: "string \<Rightarrow> nat \<Rightarrow> nat" where
  "skip_space t p = p + length (takeWhile py_isspace (drop p t))"

text \<open>
  A mention of a grade, read from the left. The keyword is \<open>grade\<close>, or \<open>self\<close> followed
  by \<open>grade\<close> with at most one hyphen or white space character between them, in upper or
  lower case; \<open>keyword_end\<close> is the position after it.
\<close>

definition keyword_end :: "string \<Rightarrow> nat \<Rightarrow> nat option" where
  "keyword_end t i =
     (if ci_at t i ''self'' then
        (let j = (if i + 4 < length t \<and> (t ! (i + 4) = CHR ''-'' \<or> py_isspace (t ! (i + 4)))
                  then i + 5 else i + 4)
         in if ci_at t j ''grade'' then Some (j + 5) else None)
      else if ci_at t i ''grade'' then Some (i + 5) else None)"

text \<open>
  The mention that starts at position \<open>i\<close>, if there is one: a word boundary, the
  keyword, white space, a separator (a colon or a hyphen), white space, one letter from A
  to F in upper or lower case, a word boundary. With \<open>sep_optional\<close> the separator may
  be missing, as the specification words it; without, it is mandatory. The result is the
  position after the keyword and the position of the letter.
\<close>

definition grade_mention :: "bool \<Rightarrow> string \<Rightarrow> nat \<Rightarrow> (nat \<times> nat) option" where
  "grade_mention sep_optional t i =
     (if word_boundary t i then
        (case keyword_end t i of
           None \<Rightarrow> None
         | Some k \<Rightarrow>
             (let a = skip_space t k;
                  has_sep = (a < length t \<and> (t ! a = CHR '':'' \<or> t ! a = CHR ''-''));
                  b = (if has_sep then skip_space t (Suc a) else a)
              in if (has_sep \<or> sep_optional) \<and> b < length t
                    \<and> py_lower (t ! b) \<in> set ''abcdef'' \<and> word_boundary t (Suc b)
                 then Some (k, b) else None))
      else None)"

definition grade_letter_at :: "bool \<Rightarrow> string \<Rightarrow> nat \<Rightarrow> char option" where
  "grade_letter_at sep_optional t i =
     map_option (\<lambda>m. t ! snd m) (grade_mention sep_optional t i)"

definition first_grade_letter :: "bool \<Rightarrow> string \<Rightarrow> char option" where
  "first_grade_letter sep_optional t =
     (case List.map_filter (grade_letter_at sep_optional t) [0..<Suc (length t)] of
        [] \<Rightarrow> None
      | c # _ \<Rightarrow> Some c)"

text \<open>The table of the specification: A is 95, B is 85, C is 75, D is 60, E and F are 40.\<close>

definition letter_score :: "char \<Rightarrow> real" where
  "letter_score c =
     (if c = CHR ''A'' \<or> c = CHR ''a'' then 95
      else if c = CHR ''B'' \<or> c = CHR ''b'' then 85
      else if c = CHR ''C'' \<or> c = CHR ''c'' then 75
      else if c = CHR ''D'' \<or> c = CHR ''d'' then 60
      else if c = CHR ''E'' \<or> c = CHR ''e'' \<or> c = CHR ''F'' \<or> c = CHR ''f'' then 40
      else - 1)"

definition spec_self_grade :: "bool \<Rightarrow> string \<Rightarrow> real" where
  "spec_self_grade sep_optional t =
     (case first_grade_letter sep_optional t of None \<Rightarrow> - 1 | Some c \<Rightarrow> letter_score c)"

text \<open>
  What the heading pattern of the source matches, seen from the line start \<open>s\<close>: after
  the white space that starts there, which the pattern lets run over the ends of lines,
  stands a hash followed by a white space character; \<open>content_start\<close> is the position
  after the white space that follows the hash. These describe the code, not the
  specification.
\<close>

definition heading_marker_at :: "string \<Rightarrow> nat \<Rightarrow> bool" where
  "heading_marker_at t s =
     (line_start flags_m t s \<and>
      (let a = skip_space t s
       in Suc a < length t \<and> t ! a = CHR ''#'' \<and> py_isspace (t ! Suc a)))"

definition content_start :: "string \<Rightarrow> nat \<Rightarrow> nat" where
  "content_start t s = skip_space t (Suc (skip_space t s))"

definition rest_of_line :: "string \<Rightarrow> nat \<Rightarrow> string" where
  "rest_of_line t b = takeWhile (\<lambda>c. c \<noteq> CHR 0x0A) (drop b t)"

text \<open>
  The title as the specification words it: the text is cut into lines, and the first line
  that consists of a hash, white space and some content gives the title, which is the
  trimmed content; without such a line the title is the name of the file without its
  extension.
\<close>

primrec split_lines :: "string \<Rightarrow> string list" where
  "split_lines [] = [[]]"
| "split_lines (c # cs) =
     (if c = CHR 0x0A then [] # split_lines cs
      else (case split_lines cs of [] \<Rightarrow> [[c]] | l # ls \<Rightarrow> (c # l) # ls))"

definition line_heading :: "string \<Rightarrow> string option" where
  "line_heading l =
     (case dropWhile py_isspace l of
        [] \<Rightarrow> None
      | c # r \<Rightarrow>
          if c = CHR ''#'' \<and> r \<noteq> [] \<and> py_isspace (hd r) \<and> py_strip r \<noteq> []
          then Some (py_strip r) else None)"

definition spec_title :: "string \<Rightarrow> string \<Rightarrow> string" where
  "spec_title md stem =
     (case List.map_filter line_heading (split_lines md) of [] \<Rightarrow> stem | h # _ \<Rightarrow> h)"

subsection \<open>Concrete inputs\<close>

text \<open>
  A directory of three reports, one of which cannot be read, with a fourth report in a
  subdirectory; the same directory enumerated in another order; a record with a given
  title, score and severity counts, a dataset of five such records, and a state of the
  controls of the dashboard.
\<close>

definition env0 :: env where
  "env0 = \<lparr>glob = (\<lambda>d pat. [[''c.md''], [''a.md''], [''b.md'']]),
           rglob = (\<lambda>d pat. [[''sub'', ''z.md''], [''c.md''], [''a.md''], [''b.md'']]),
           read_text = (\<lambda>p. if p = [''b.md''] then None else Some ''# T''),
           stat_mtime = (\<lambda>p. ''2025-01-01 00:00:00 UTC''),
           markdown_lib = None\<rparr>"

definition env1 :: env where
  "env1 = env0\<lparr>glob := (\<lambda>d pat. [[''b.md''], [''c.md''], [''a.md'']])\<rparr>"

definition item0 :: "string \<Rightarrow> real \<Rightarrow> (string \<rightharpoonup> int) \<Rightarrow> ReportItem" where
  "item0 t fs sev =
     \<lparr>filename = t @ ''.md'', title = t, html = [], text_field = [], severity = sev,
      self_grade_score = - 1, severity_score = fs, final_score = fs, mtime = []\<rparr>"

definition data0 :: "ReportItem list" where
  "data0 = [item0 ''Report one'' 44.5 [''high'' \<mapsto> 1, ''low'' \<mapsto> 0],
            item0 ''Report two'' 44.4 [''high'' \<mapsto> 1, ''low'' \<mapsto> 1],
            item0 ''Report three'' 98 [''critical'' \<mapsto> 2, ''high'' \<mapsto> 0, ''low'' \<mapsto> 0],
            item0 ''Other'' 98 [''low'' \<mapsto> 3],
            item0 ''Fourth report'' 60 [''critical'' \<mapsto> 0, ''low'' \<mapsto> 3]]"

definition ui0 :: controls where
  "ui0 = \<lparr>q_value = ''RE'', min_score = 45, active_chips = [''high'', ''low'']\<rparr>"

section \<open>Scores\<close>

subsection \<open>The severity penalty\<close>

lemma max_min_clamp: "max 1 (min 100 x) = clamp x 1 100"
  by (auto simp: clamp_def)

lemma severity_penalty_score_unfold:
  "severity_penalty_score sev =
     max 1 (min 100 (100 - min (of_int (dict_get sev ''critical'' 0) * 25) 60
                         - min (of_int (dict_get sev ''high'' 0) * 15) 45
                         - min (of_int (dict_get sev ''medium'' 0) * 7) 35
                         - min (of_int (dict_get sev ''low'' 0) * 2) 10))"
  by (simp add: severity_penalty_score_def)

lemma severity_penalty_score_bounds:
  "1 \<le> severity_penalty_score sev \<and> severity_penalty_score sev \<le> 100"
  unfolding severity_penalty_score_unfold by linarith

lemma severity_penalty_score_integral: "\<exists>n::int. severity_penalty_score sev = of_int n"
proof -
  let ?c = "dict_get sev ''critical'' 0" and ?h = "dict_get sev ''high'' 0"
  and ?m = "dict_get sev ''medium'' 0" and ?l = "dict_get sev ''low'' 0"
  have "severity_penalty_score sev =
          of_int (max 1 (min 100 (100 - min (?c * 25) 60 - min (?h * 15) 45
                                   - min (?m * 7) 35 - min (?l * 2) 10)))"
    unfolding severity_penalty_score_unfold
    by (simp only: of_int_max of_int_min of_int_diff of_int_mult of_int_numeral of_int_1)
  then show ?thesis by blast
qed

text \<open>
  C1. For counts \<open>c\<close>, \<open>h\<close>, \<open>m\<close>, \<open>l\<close> that are not negative, the score computed by
  \<open>severity_penalty_score\<close> is the clamp to the interval from 1 to 100 of 100 minus
  the four capped penalties \<open>min (25 c) 60\<close>, \<open>min (15 h) 45\<close>, \<open>min (7 m) 35\<close> and
  \<open>min (2 l) 10\<close>.
\<close>

theorem severity_penalty_score_formula:
  assumes "sev ''critical'' = Some c" and "sev ''high'' = Some h"
    and "sev ''medium'' = Some m" and "sev ''low'' = Some l"
    and "0 \<le> c" and "0 \<le> h" and "0 \<le> m" and "0 \<le> l"
  shows "severity_penalty_score sev = spec_severity_score c h m l"
  using assms(1-4)
  by (simp add: severity_penalty_score_unfold dict_get_def spec_severity_score_def
      max_min_clamp mult.commute)

theorem severity_penalty_score_formula_witness:
  "severity_penalty_score [''critical'' \<mapsto> 1, ''high'' \<mapsto> 5, ''medium'' \<mapsto> 2, ''low'' \<mapsto> 10] = 6
   \<and> spec_severity_score 1 5 2 10 = 6"
  using severity_penalty_score_formula
    [of "[''critical'' \<mapsto> 1, ''high'' \<mapsto> 5, ''medium'' \<mapsto> 2, ''low'' \<mapsto> 10]" 1 5 2 10]
  by (simp add: spec_severity_score_def clamp_def)

subsection \<open>Rounding to one decimal\<close>

lemma round_half_even_of_int: "round_half_even (of_int n) = n"
  by (simp add: round_half_even_def)

lemma round_half_even_lower:
  assumes "of_int n \<le> y"
  shows "n \<le> round_half_even y"
proof -
  have "n \<le> \<lfloor>y\<rfloor>" using assms by (simp add: le_floor_iff)
  then show ?thesis by (simp add: round_half_even_def Let_def)
qed

lemma round_half_even_upper:
  assumes "y \<le> of_int n"
  shows "round_half_even y \<le> n"
proof (cases "y = of_int n")
  case True
  then show ?thesis by (simp add: round_half_even_of_int)
next
  case False
  with assms have "y < of_int n" by simp
  then have "\<lfloor>y\<rfloor> < n" by (simp add: floor_less_iff)
  then show ?thesis by (simp add: round_half_even_def Let_def)
qed

lemma py_round1_tenths: "py_round1 (of_int n / 10) = of_int n / 10"
  by (simp add: py_round1_def round_half_even_of_int)

lemma py_round1_lower: "of_int n \<le> x \<Longrightarrow> of_int n \<le> py_round1 x"
proof -
  assume "of_int n \<le> x"
  then have "of_int (n * 10) \<le> x * 10" by simp
  then have "n * 10 \<le> round_half_even (x * 10)" by (rule round_half_even_lower)
  then have "(of_int (n * 10) :: real) \<le> of_int (round_half_even (x * 10))"
    by (simp only: of_int_le_iff)
  then show ?thesis by (simp add: py_round1_def)
qed

lemma py_round1_upper: "x \<le> of_int n \<Longrightarrow> py_round1 x \<le> of_int n"
proof -
  assume "x \<le> of_int n"
  then have "x * 10 \<le> of_int (n * 10)" by simp
  then have "round_half_even (x * 10) \<le> n * 10" by (rule round_half_even_upper)
  then have "(of_int (round_half_even (x * 10)) :: real) \<le> of_int (n * 10)"
    by (simp only: of_int_le_iff)
  then show ?thesis by (simp add: py_round1_def)
qed

lemma py_round1_range:
  assumes "1 \<le> x" and "x \<le> 100"
  shows "1 \<le> py_round1 x \<and> py_round1 x \<le> 100"
  using py_round1_lower [of 1 x] py_round1_upper [of x 100] assms by simp

subsection \<open>Combining the two scores\<close>

lemma combine_scores_range:
  assumes "1 \<le> s" and "s \<le> 100" and "g < 0 \<or> (1 \<le> g \<and> g \<le> 100)"
  shows "1 \<le> combine_scores g s \<and> combine_scores g s \<le> 100"
proof (cases "g < 0")
  case True
  then show ?thesis using py_round1_range [OF assms(1,2)] by (simp add: combine_scores_def)
next
  case False
  with assms(3) have g: "1 \<le> g" "g \<le> 100" by auto
  have "1 \<le> 0.6 * s + 0.4 * g" and "0.6 * s + 0.4 * g \<le> 100"
    using assms(1,2) g by linarith+
  then show ?thesis using False py_round1_range by (simp add: combine_scores_def)
qed

lemma grade_mapping_range:
  "dict_get grade_mapping letter (- 1) \<in> {- 1, 40, 60, 75, 85, 95}"
  by (simp add: dict_get_def grade_mapping_def)

lemma extract_self_grade_score_range:
  "extract_self_grade_score md \<in> {- 1, 40, 60, 75, 85, 95}"
  unfolding extract_self_grade_score_def Let_def
  using grade_mapping_range by (cases "re_search flags_i grade_rx md") simp_all

lemma load_report_final_score:
  "final_score (load_report e p md) =
     combine_scores (extract_self_grade_score md) (severity_penalty_score (count_severities md))"
  by (simp add: load_report_def Let_def)

lemma severity_penalty_score_int_range:
  "\<exists>n::int. severity_penalty_score sev = of_int n \<and> 1 \<le> n \<and> n \<le> 100"
proof -
  obtain n :: int where n: "severity_penalty_score sev = of_int n"
    using severity_penalty_score_integral by blast
  with severity_penalty_score_bounds [of sev] have "1 \<le> n \<and> n \<le> 100" by simp
  with n show ?thesis by blast
qed

text \<open>
  C3. For a valid severity score \<open>s\<close>, an integer between 1 and 100 as the penalty rule
  computes it, \<open>combine_scores\<close> returns \<open>s\<close> unchanged when the self-grade is the
  absence sentinel (-1, or any negative value), and returns \<open>0.6 s + 0.4 g\<close> rounded to
  one decimal for a self-grade \<open>g\<close> among 95, 85, 75, 60 and 40. Every score that
  \<open>severity_penalty_score\<close> computes is such a score.
\<close>

theorem combine_scores_spec:
  assumes "s = of_int n" and "1 \<le> n" and "n \<le> 100"
  shows "(g < 0 \<longrightarrow> combine_scores g s = s)
       \<and> (g \<in> {95, 85, 75, 60, 40} \<longrightarrow> combine_scores g s = py_round1 (0.6 * s + 0.4 * g))
       \<and> (\<exists>k::int. severity_penalty_score sev = of_int k \<and> 1 \<le> k \<and> k \<le> 100)
       \<and> combine_scores (- 1) (severity_penalty_score sev) = severity_penalty_score sev"
proof -
  have r: "py_round1 (of_int k) = of_int k" for k :: int
    using py_round1_tenths [of "k * 10"] by simp
  have 1: "g < 0 \<longrightarrow> combine_scores g s = s"
    by (simp add: combine_scores_def assms(1) r)
  have 2: "g \<in> {95, 85, 75, 60, 40} \<longrightarrow> combine_scores g s = py_round1 (0.6 * s + 0.4 * g)"
    by (auto simp: combine_scores_def)
  obtain k :: int where k: "severity_penalty_score sev = of_int k" "1 \<le> k" "k \<le> 100"
    using severity_penalty_score_int_range by blast
  have 4: "combine_scores (- 1) (severity_penalty_score sev) = severity_penalty_score sev"
    by (simp add: combine_scores_def k(1) r)
  from 1 2 k 4 show ?thesis by blast
qed

theorem combine_scores_spec_witness:
  "combine_scores (- 1) 40 = 40 \<and> combine_scores 95 100 = 98
   \<and> py_round1 (0.6 * 100 + 0.4 * 95) = 98 \<and> combine_scores 60 45 = 51"
proof -
  have a: "(40::real) = of_int 40" and b: "(100::real) = of_int 100"
    and c: "(45::real) = of_int 45" by simp_all
  from combine_scores_spec [OF a, of "- 1"] combine_scores_spec [OF b, of 95]
    combine_scores_spec [OF c, of 60]
  show ?thesis by (simp add: py_round1_def round_half_even_def)
qed

text \<open>
  C4. Whatever the severity counts are, and for a self-grade that is the sentinel -1 or one
  of 40, 60, 75, 85 and 95, the combined score lies between 1 and 100; so does the final
  score of the record that the loader builds from any text.
\<close>

theorem final_score_in_range:
  assumes "g \<in> {- 1, 40, 60, 75, 85, 95}"
  shows "1 \<le> combine_scores g (severity_penalty_score sev)
       \<and> combine_scores g (severity_penalty_score sev) \<le> 100
       \<and> 1 \<le> final_score (load_report e p md)
       \<and> final_score (load_report e p md) \<le> 100"
proof -
  have g: "g < 0 \<or> (1 \<le> g \<and> g \<le> 100)" using assms by auto
  have g': "extract_self_grade_score md < 0
      \<or> (1 \<le> extract_self_grade_score md \<and> extract_self_grade_score md \<le> 100)"
    using extract_self_grade_score_range [of md] by auto
  show ?thesis
    using combine_scores_range [OF _ _ g] combine_scores_range [OF _ _ g']
      severity_penalty_score_bounds
    by (simp add: load_report_final_score)
qed

theorem final_score_in_range_witness:
  "(40::real) \<in> {- 1, 40, 60, 75, 85, 95}
   \<and> combine_scores 40 (severity_penalty_score [''critical'' \<mapsto> 1000000, ''low'' \<mapsto> 7]) = 34"
proof -
  have m: "(40::real) \<in> {- 1, 40, 60, 75, 85, 95}" by simp
  have "combine_scores 40 (severity_penalty_score [''critical'' \<mapsto> 1000000, ''low'' \<mapsto> 7]) = 34"
    by (simp add: combine_scores_def severity_penalty_score_unfold dict_get_def py_round1_def
        round_half_even_def)
  with m final_score_in_range [OF m, of "[''critical'' \<mapsto> 1000000, ''low'' \<mapsto> 7]"]
  show ?thesis by simp
qed

section \<open>The fallback of the renderer\<close>

lemma py_replace_single:
  "py_replace [a] new s = concat (map (\<lambda>c. if c = a then new else [c]) s)"
proof (induction s)
  case Nil
  show ?case by (subst py_replace.simps) simp
next
  case (Cons c cs)
  show ?case by (subst py_replace.simps) (simp add: Cons.IH)
qed

lemma escape_by_replace:
  "py_replace ''>'' ''&gt;'' (py_replace ''<'' ''&lt;'' (py_replace ''&'' ''&amp;'' s)) = html_escape s"
  by (induction s) (simp_all add: py_replace_single html_escape_def html_escape_char_def)

text \<open>
  C8. When the Markdown renderer is unavailable or fails on a report, \<open>render_markdown\<close>
  raises nothing and returns the text with \<open>&\<close>, \<open><\<close> and \<open>>\<close> escaped, inside a
  \<open>pre\<close> element; the record of the report is built with this as its body.
\<close>

theorem render_markdown_fallback:
  assumes "renderer_fails lib md"
  shows "render_markdown lib md = ''<pre>'' @ html_escape md @ ''</pre>''
       \<and> (markdown_lib e = lib \<longrightarrow>
            html (load_report e p md) = ''<pre>'' @ html_escape md @ ''</pre>'')"
proof -
  have "(case lib of None \<Rightarrow> None | Some markdown \<Rightarrow> markdown md) = None"
    using assms by (simp add: renderer_fails_def split: option.splits)
  then have "render_markdown lib md = ''<pre>'' @ html_escape md @ ''</pre>''"
    by (simp add: render_markdown_def escape_by_replace del: append.simps)
  then show ?thesis by (simp add: load_report_def Let_def)
qed

theorem render_markdown_fallback_witness:
  "renderer_fails (Some (\<lambda>s. None)) ''a<b> & c''
   \<and> render_markdown (Some (\<lambda>s. None)) ''a<b> & c'' = ''<pre>a&lt;b&gt; &amp; c</pre>''
   \<and> html (load_report env0 [''a.md''] ''a<b> & c'') = ''<pre>a&lt;b&gt; &amp; c</pre>''"
proof -
  have f: "renderer_fails (Some (\<lambda>s. None)) ''a<b> & c''"
    by (simp add: renderer_fails_def)
  have g: "renderer_fails None ''a<b> & c''"
    by (simp add: renderer_fails_def)
  from render_markdown_fallback [OF f] render_markdown_fallback [OF g, of env0 "[''a.md'']"] f
  show ?thesis
    by (simp add: html_escape_def html_escape_char_def env0_def)
qed

section \<open>The loader\<close>

lemma load_loop_map_filter:
  "load_loop e ps out = out @ List.map_filter (read_record e) ps"
  by (induction ps arbitrary: out)
     (simp_all add: List.map_filter_simps read_record_def split: option.splits)

lemma length_map_filter_read:
  "length (List.map_filter (read_record e) ps) = length (filter (readable e) ps)"
  by (induction ps)
     (simp_all add: List.map_filter_simps read_record_def readable_def split: option.splits)

lemma filename_map_filter_read:
  "map filename (List.map_filter (read_record e) ps) = map path_name (filter (readable e) ps)"
  by (induction ps)
     (simp_all add: List.map_filter_simps read_record_def readable_def load_report_def Let_def
        split: option.splits)

lemma load_reports_eq:
  "load_reports e root_dir recursive pattern =
     List.map_filter (read_record e) (sort (listing e root_dir recursive pattern))"
  by (simp add: load_reports_def listing_def load_loop_map_filter)

text \<open>
  C7. A source that cannot be read is skipped and the loop goes on with the others: the
  result of \<open>load_reports\<close> consists of the records of the readable sources, one for each,
  in the order of the sorted paths, whatever the number and the place of the sources
  whose reading fails.
\<close>

theorem load_reports_skips_unreadable:
  "load_reports e root_dir recursive pattern =
     List.map_filter (read_record e) (sort (listing e root_dir recursive pattern))
   \<and> length (load_reports e root_dir recursive pattern) =
     length (filter (readable e) (listing e root_dir recursive pattern))
   \<and> map filename (load_reports e root_dir recursive pattern) =
     map path_name (filter (readable e) (sort (listing e root_dir recursive pattern)))"
proof -
  let ?fs = "listing e root_dir recursive pattern"
  have "length (filter (readable e) (sort ?fs)) = length (filter (readable e) ?fs)"
    by (metis mset_filter mset_sort size_mset)
  then show ?thesis
    by (simp add: load_reports_eq length_map_filter_read filename_map_filter_read)
qed

theorem load_reports_skips_unreadable_witness:
  "map filename (load_reports env0 [] False ''*.md'') = [''a.md'', ''c.md'']
   \<and> length (load_reports env0 [] True ''*.md'') = 3"
  using load_reports_skips_unreadable [of env0 "[]" False "''*.md''", THEN conjunct2, THEN conjunct2]
    load_reports_skips_unreadable [of env0 "[]" True "''*.md''", THEN conjunct2, THEN conjunct1]
  by (simp add: env0_def listing_def readable_def path_name_def)

lemma load_report_cong:
  "stat_mtime e' = stat_mtime e \<Longrightarrow> markdown_lib e' = markdown_lib e \<Longrightarrow>
   load_report e' = load_report e"
  by (intro ext) (simp add: load_report_def)

lemma sorted_map_filter_paths:
  "\<exists>ps. sorted ps \<and> mset ps = mset (filter (readable e) fs)
      \<and> List.map_filter (read_record e) (sort fs) =
          map (\<lambda>p. load_report e p (the (read_text e p))) ps"
proof -
  have "List.map_filter (read_record e) qs =
          map (\<lambda>p. load_report e p (the (read_text e p))) (filter (readable e) qs)" for qs
    by (induction qs)
       (auto simp: List.map_filter_simps read_record_def readable_def split: option.splits)
  moreover have "sorted (filter (readable e) (sort fs))"
    by (rule sorted_wrt_filter) simp
  moreover have "mset (filter (readable e) (sort fs)) = mset (filter (readable e) fs)"
    by simp
  ultimately show ?thesis by blast
qed

text \<open>
  C10. \<open>load_reports\<close> sorts the enumerated paths before it processes them: its records
  are those of the readable sources in ascending order of their paths (component by
  component, each component in the order of its characters), and two enumerations of the
  same sources in different orders give the same list of records.
\<close>

theorem load_reports_sorted_by_path:
  assumes "mset (listing e' root_dir recursive pattern) = mset (listing e root_dir recursive pattern)"
    and "read_text e' = read_text e" and "stat_mtime e' = stat_mtime e"
    and "markdown_lib e' = markdown_lib e"
  shows "load_reports e' root_dir recursive pattern = load_reports e root_dir recursive pattern
       \<and> (\<exists>ps. sorted ps
              \<and> mset ps = mset (filter (readable e) (listing e root_dir recursive pattern))
              \<and> load_reports e root_dir recursive pattern =
                  map (\<lambda>p. load_report e p (the (read_text e p))) ps)"
proof -
  have "sort (listing e' root_dir recursive pattern) = sort (listing e root_dir recursive pattern)"
    using assms(1) by (metis mset_sort sorted_sort properties_for_sort)
  moreover have "read_record e' = read_record e"
    using assms(2) load_report_cong [OF assms(3,4)] by (intro ext) (simp add: read_record_def)
  ultimately show ?thesis
    using sorted_map_filter_paths [of e "listing e root_dir recursive pattern"]
    by (simp add: load_reports_eq)
qed

theorem load_reports_sorted_by_path_witness:
  "mset (listing env1 [] False ''*.md'') = mset (listing env0 [] False ''*.md'')
   \<and> listing env1 [] False ''*.md'' \<noteq> listing env0 [] False ''*.md''
   \<and> load_reports env1 [] False ''*.md'' = load_reports env0 [] False ''*.md''"
proof -
  have l: "mset (listing env1 [] False ''*.md'') = mset (listing env0 [] False ''*.md'')"
    by (simp add: env1_def env0_def listing_def)
  have n: "listing env1 [] False ''*.md'' \<noteq> listing env0 [] False ''*.md''"
    by (simp add: env1_def env0_def listing_def)
  have r: "read_text env1 = read_text env0" and s: "stat_mtime env1 = stat_mtime env0"
    and m: "markdown_lib env1 = markdown_lib env0"
    by (simp_all add: env1_def)
  from load_reports_sorted_by_path [OF l r s m] l n show ?thesis by blast
qed

section \<open>The filter of the dashboard\<close>

lemma Math_round_nearest: "\<bar>of_int (Math_round x) - x\<bar> \<le> 1 / 2"
  unfolding Math_round_def by linarith

text \<open>
  C9. With at least one severity level selected, and on records whose severity counts are
  not negative, the array that \<open>renderList\<close> shows consists of exactly the records that
  match the search text (in the title or in the file name, case-insensitively), whose
  final score rounded to the nearest integer is at least the minimum score, and for which
  at least one of the selected levels has a non-zero count: the three predicates are
  joined by conjunction, the selected levels by disjunction.
\<close>

theorem renderList_filter:
  assumes "active_chips ui \<noteq> []"
    and "\<forall>it \<in> set DATA. \<forall>c \<in> set (active_chips ui). 0 \<le> dict_get (severity it) c 0"
  shows "renderList_arr DATA ui =
           filter (\<lambda>it. text_matches (q_value ui) it
                        \<and> score_at_least (min_score ui) it
                        \<and> any_level_present (active_chips ui) it) DATA"
proof -
  have pos: "0 < dict_get (severity it) c 0 \<longleftrightarrow> dict_get (severity it) c 0 \<noteq> 0"
    if "it \<in> set DATA" and "c \<in> set (active_chips ui)" for it c
  proof -
    have "0 \<le> dict_get (severity it) c 0" using assms(2) that by blast
    then show ?thesis by linarith
  qed
  have "list_ex (\<lambda>c. 0 < dict_get (severity it) c 0) (active_chips ui)
        = any_level_present (active_chips ui) it" if "it \<in> set DATA" for it
    unfolding any_level_present_def list_ex_iff using pos [OF that] by blast
  then have ex: "list_ex (\<lambda>c. 0 < dict_get (severity it) c 0) (active_chips ui)
        \<longleftrightarrow> any_level_present (active_chips ui) it" if "it \<in> set DATA" for it
    using that by simp
  let ?P1 = "\<lambda>it. js_includes (toLowerCase (title it)) (toLowerCase (q_value ui))
                  \<or> js_includes (toLowerCase (filename it)) (toLowerCase (q_value ui))"
  let ?P2 = "\<lambda>it. min_score ui \<le> of_int (Math_round (final_score it))"
  let ?P3 = "\<lambda>it. list_ex (\<lambda>c. 0 < dict_get (severity it) c 0) (active_chips ui)"
  have "renderList_arr DATA ui = filter ?P3 (filter ?P2 (filter ?P1 DATA))"
    using assms(1) by (simp add: renderList_arr_def Let_def)
  also have "\<dots> = filter (\<lambda>it. ?P1 it \<and> ?P2 it \<and> ?P3 it) DATA"
    by simp
  also have "\<dots> = filter (\<lambda>it. text_matches (q_value ui) it
                              \<and> score_at_least (min_score ui) it
                              \<and> any_level_present (active_chips ui) it) DATA"
    by (rule filter_cong) (simp_all add: text_matches_def score_at_least_def ex)
  finally show ?thesis .
qed

theorem renderList_filter_witness:
  "active_chips ui0 \<noteq> []
   \<and> map title (renderList_arr data0 ui0) = [''Report one'', ''Fourth report'']"
proof -
  have a: "active_chips ui0 \<noteq> []" by (simp add: ui0_def)
  have b: "\<forall>it \<in> set data0. \<forall>c \<in> set (active_chips ui0). 0 \<le> dict_get (severity it) c 0"
    by (simp add: ui0_def data0_def item0_def dict_get_def)
  have c: "map title (filter (\<lambda>it. text_matches (q_value ui0) it
                        \<and> score_at_least (min_score ui0) it
                        \<and> any_level_present (active_chips ui0) it) data0)
           = [''Report one'', ''Fourth report'']"
    by code_simp
  from renderList_filter [OF a b] a c show ?thesis by simp
qed

section \<open>Characters and the matcher\<close>

lemma of_char_py_lower:
  "(of_char (py_lower c) :: nat) =
     (let n = of_char c
      in if (65 \<le> n \<and> n \<le> 90) \<or> (192 \<le> n \<and> n \<le> 214) \<or> (216 \<le> n \<and> n \<le> 222)
         then n + 32 else n)"
proof -
  have "(of_char c + 32) mod 256 = (of_char c :: nat) + 32" if "(of_char c :: nat) \<le> 222"
    using that by simp
  then show ?thesis
    by (auto simp: py_lower_def Let_def)
qed

lemma py_isword_lower: "py_isword (py_lower c) = py_isword c"
  unfolding py_isword_def of_char_py_lower Let_def
  using nat_of_char_less_256 [of c] by auto

lemma space_not_word: "py_isspace c \<Longrightarrow> \<not> py_isword c"
  unfolding py_isword_def py_isspace_def Let_def by auto

lemma lit_at_ci: "lit_at flags_i t p w = ci_at t p w"
  by (simp add: lit_at_def ci_at_def flags_i_def)

lemma ci_at_nth:
  assumes "ci_at t p w" and "k < length w"
  shows "p + k < length t \<and> py_lower (t ! (p + k)) = py_lower (w ! k)"
proof -
  from assms have len: "p + k < length t" by (simp add: ci_at_def)
  from assms have "map py_lower (take (length w) (drop p t)) ! k = map py_lower w ! k"
    by (simp add: ci_at_def)
  with assms(2) len show ?thesis by (simp add: ci_at_def)
qed

lemma ci_at_word_chars:
  assumes "ci_at t p w" and "\<forall>c \<in> set w. py_isword c" and "k < length w"
  shows "word_at t (p + k)"
proof -
  from ci_at_nth [OF assms(1,3)]
  have len: "p + k < length t" and eq: "py_lower (t ! (p + k)) = py_lower (w ! k)" by simp_all
  have "py_isword (w ! k)" using assms(2,3) by simp
  then have "py_isword (py_lower (t ! (p + k)))" by (simp add: eq py_isword_lower)
  then show ?thesis using len by (simp add: word_at_def py_isword_lower)
qed

text \<open>Inside an occurrence of a word of word characters there is no word boundary.\<close>

lemma no_boundary_inside:
  assumes "ci_at t p w" and "\<forall>c \<in> set w. py_isword c" and "p < q" and "q < p + length w"
  shows "\<not> word_boundary t q"
proof -
  from assms(3,4) have "q - p < length w" and "q - p - 1 < length w" by simp_all
  from ci_at_word_chars [OF assms(1,2) this(1)] ci_at_word_chars [OF assms(1,2) this(2)] assms(3)
  have "word_at t q" and "word_at t (q - 1)" by simp_all
  then have "word_before t q" using assms(3) by (simp add: word_before_def word_at_def)
  with \<open>word_at t q\<close> show ?thesis by (simp add: word_boundary_def)
qed

lemma rx_match_level:
  "rx_match flags_i t (level_rx w) (p, g) = (if occurs_at w t p then [(p + length w, g)] else [])"
  by (simp add: level_rx_def occurs_at_def lit_at_ci)

lemma upt_split3:
  assumes "p \<le> q" and "q \<le> n"
  shows "[p..<n] = [p..<q] @ [q..<n]"
  using assms by (metis le_Suc_ex upt_add_eq_append)

lemma re_findall_level:
  assumes "w \<noteq> []" and "\<forall>c \<in> set w. py_isword c"
  shows "re_findall flags_i (level_rx w) t p =
           map (\<lambda>i. (i, i + length w)) (filter (occurs_at w t) [p..<Suc (length t)])"
proof (induction "Suc (length t) - p" arbitrary: p rule: less_induct)
  case less
  show ?case
  proof (cases "length t < p")
    case True
    then show ?thesis by (subst re_findall.simps) simp
  next
    case False
    then have p: "p \<le> length t" by simp
    then have upt: "[p..<Suc (length t)] = p # [Suc p..<Suc (length t)]"
      by (simp add: upt_conv_Cons)
    show ?thesis
    proof (cases "occurs_at w t p")
      case no: False
      have "re_findall flags_i (level_rx w) t p = re_findall flags_i (level_rx w) t (Suc p)"
        using False no by (subst re_findall.simps) (simp add: rx_match_level)
      also have "\<dots> = map (\<lambda>i. (i, i + length w)) (filter (occurs_at w t) [Suc p..<Suc (length t)])"
        using p by (intro less) simp
      finally show ?thesis using no upt by simp
    next
      case yes: True
      let ?e = "p + length w"
      from yes have e: "?e \<le> length t" and ci: "ci_at t p w"
        by (simp_all add: occurs_at_def ci_at_def)
      from assms(1) have lw: "Suc 0 \<le> length w" by (cases w) simp_all
      then have pe: "p < ?e" by arith
      have "re_findall flags_i (level_rx w) t p = (p, ?e) # re_findall flags_i (level_rx w) t ?e"
        using False yes pe by (subst re_findall.simps) (simp add: rx_match_level)
      also have "re_findall flags_i (level_rx w) t ?e =
          map (\<lambda>i. (i, i + length w)) (filter (occurs_at w t) [?e..<Suc (length t)])"
        by (intro less) (use e pe in arith)
      finally have r: "re_findall flags_i (level_rx w) t p =
          (p, ?e) # map (\<lambda>i. (i, i + length w)) (filter (occurs_at w t) [?e..<Suc (length t)])" .
      have inner: "filter (occurs_at w t) [Suc p..<?e] = []"
        using no_boundary_inside [OF ci assms(2)] by (auto simp: filter_empty_conv occurs_at_def)
      have "[Suc p..<Suc (length t)] = [Suc p..<?e] @ [?e..<Suc (length t)]"
        by (intro upt_split3) (use lw e in arith)+
      then have "filter (occurs_at w t) [p..<Suc (length t)] =
          p # filter (occurs_at w t) [?e..<Suc (length t)]"
        using yes inner upt by simp
      with r show ?thesis by simp
    qed
  qed
qed

lemma count_level:
  assumes "w \<noteq> []" and "\<forall>c \<in> set w. py_isword c"
  shows "length (re_findall flags_i (level_rx w) t 0) = occurrences w t"
  by (simp add: re_findall_level [OF assms] occurrences_def)

lemma level_names_words:
  "\<forall>c \<in> set ''critical''. py_isword c" "\<forall>c \<in> set ''high''. py_isword c"
  "\<forall>c \<in> set ''medium''. py_isword c" "\<forall>c \<in> set ''low''. py_isword c"
  by (simp_all add: py_isword_def)

lemma occurrences_empty: "w \<noteq> [] \<Longrightarrow> occurrences w [] = 0"
  by (simp add: occurrences_def occurs_at_def ci_at_def)

section \<open>Counting the severity words\<close>

lemma count_severities_unfold:
  "count_severities t =
     sev_init(''critical'' \<mapsto> int (occurrences ''critical'' t),
              ''high'' \<mapsto> int (occurrences ''high'' t),
              ''medium'' \<mapsto> int (occurrences ''medium'' t),
              ''low'' \<mapsto> int (occurrences ''low'' t))"
  by (simp add: count_severities_def sev_keys_def count_level level_names_words)

text \<open>
  C5. \<open>count_severities\<close> returns a mapping with exactly the four keys critical, high,
  medium and low; the value of a key is the number of positions of the text at which the
  word stands, in upper or lower case, between two word boundaries; for the empty text all
  four values are zero.
\<close>

theorem count_severities_counts:
  "dom (count_severities t) = {''critical'', ''high'', ''medium'', ''low''}
   \<and> count_severities t ''critical'' = Some (int (occurrences ''critical'' t))
   \<and> count_severities t ''high'' = Some (int (occurrences ''high'' t))
   \<and> count_severities t ''medium'' = Some (int (occurrences ''medium'' t))
   \<and> count_severities t ''low'' = Some (int (occurrences ''low'' t))
   \<and> count_severities [] = [''critical'' \<mapsto> 0, ''high'' \<mapsto> 0, ''medium'' \<mapsto> 0, ''low'' \<mapsto> 0]"
proof -
  have d: "dom (count_severities t) = {''critical'', ''high'', ''medium'', ''low''}"
    unfolding count_severities_unfold by (auto simp: sev_init_def)
  have v: "count_severities t ''critical'' = Some (int (occurrences ''critical'' t))"
    "count_severities t ''high'' = Some (int (occurrences ''high'' t))"
    "count_severities t ''medium'' = Some (int (occurrences ''medium'' t))"
    "count_severities t ''low'' = Some (int (occurrences ''low'' t))"
    unfolding count_severities_unfold by simp_all
  have e: "count_severities [] = [''critical'' \<mapsto> 0, ''high'' \<mapsto> 0, ''medium'' \<mapsto> 0, ''low'' \<mapsto> 0]"
    unfolding count_severities_unfold by (simp add: occurrences_empty sev_init_def)
  from d v e show ?thesis by blast
qed

theorem count_severities_counts_witness:
  "count_severities ''High, high;low_ LOW lower critical'' ''high'' = Some 2
   \<and> occurrences ''low'' ''High, high;low_ LOW lower critical'' = 1
   \<and> count_severities ''High, high;low_ LOW lower critical'' ''low'' = Some 1"
proof -
  have "occurrences ''high'' ''High, high;low_ LOW lower critical'' = 2"
    and "occurrences ''low'' ''High, high;low_ LOW lower critical'' = 1"
    by code_simp+
  with count_severities_counts [of "''High, high;low_ LOW lower critical''"]
  show ?thesis by simp
qed

section \<open>The self-grade\<close>

subsection \<open>White space before a character that is none\<close>

lemma run_space: "cls_run fl Space t p = length (takeWhile py_isspace (drop p t))"
proof -
  have "in_cls fl Space = py_isspace" by (intro ext) simp
  then show ?thesis by (simp add: cls_run_def)
qed

lemma skip_space_run: "skip_space t p = p + cls_run fl Space t p"
  by (simp add: skip_space_def run_space)

lemma space_in_run:
  assumes "k < length (takeWhile py_isspace (drop p t))"
  shows "p + k < length t \<and> py_isspace (t ! (p + k))"
proof -
  let ?xs = "drop p t"
  from assms have "k < length ?xs"
    using length_takeWhile_le [of py_isspace ?xs] by linarith
  then have len: "p + k < length t" by simp
  from assms have "takeWhile py_isspace ?xs ! k \<in> set (takeWhile py_isspace ?xs)"
    by (intro nth_mem)
  then have "py_isspace (takeWhile py_isspace ?xs ! k)" by (rule set_takeWhileD [THEN conjunct2])
  then have "py_isspace (?xs ! k)" using assms by (simp add: takeWhile_nth)
  with len show ?thesis by simp
qed

lemma after_space:
  assumes "skip_space t p < length t"
  shows "\<not> py_isspace (t ! skip_space t p)"
proof -
  let ?xs = "drop p t"
  from assms have "length (takeWhile py_isspace ?xs) < length ?xs"
    by (simp add: skip_space_def)
  then have "\<not> py_isspace (?xs ! length (takeWhile py_isspace ?xs))"
    by (rule nth_length_takeWhile)
  moreover from assms have "p \<le> length t" by (simp add: skip_space_def)
  ultimately show ?thesis using assms by (simp add: skip_space_def)
qed

lemma concat_map_last_only:
  assumes "\<And>k. k < n \<Longrightarrow> F (p + k) = []"
  shows "concat (map F (map (\<lambda>k. p + k) (rev [0..<Suc n]))) = F (p + n)"
proof -
  have "concat (map F (map (\<lambda>k. p + k) (rev [0..<n]))) = []"
    using assms by (simp add: concat_eq_Nil_conv)
  then show ?thesis by simp
qed

lemma rx_star_space_then:
  assumes "\<And>q. q < length t \<Longrightarrow> py_isspace (t ! q) \<Longrightarrow> rx_match fl t r (q, g) = []"
  shows "rx_match fl t (Seq (Star Space) r) (p, g) = rx_match fl t r (skip_space t p, g)"
proof -
  let ?n = "length (takeWhile py_isspace (drop p t))"
  have "rx_match fl t (Seq (Star Space) r) (p, g) =
          concat (map (\<lambda>q. rx_match fl t r (q, g)) (map (\<lambda>k. p + k) (rev [0..<Suc ?n])))"
    by (simp add: run_space comp_def del: upt_Suc)
  also have "\<dots> = rx_match fl t r (p + ?n, g)"
    using space_in_run assms by (intro concat_map_last_only) blast
  finally show ?thesis by (simp add: skip_space_def)
qed

subsection \<open>Characters of the pattern\<close>

lemma py_lower_eq_code:
  "py_lower c = d \<longleftrightarrow> (of_char (py_lower c) :: nat) = of_char d"
  by simp

lemma char_eq_code: "c = d \<longleftrightarrow> (of_char c :: nat) = of_char d"
  by simp

lemma py_lower_hyphen: "py_lower c = CHR ''-'' \<longleftrightarrow> c = CHR ''-''"
  unfolding py_lower_eq_code char_eq_code [of c] of_char_py_lower Let_def by auto

lemma py_lower_colon: "py_lower c = CHR '':'' \<longleftrightarrow> c = CHR '':''"
  unfolding py_lower_eq_code char_eq_code [of c] of_char_py_lower Let_def by auto

lemma py_lower_letter:
  assumes "py_lower c \<in> set ''abcdef''"
  shows "c \<in> set ''abcdefABCDEF''"
proof -
  from assms have "(of_char (py_lower c) :: nat) \<in> {97, 98, 99, 100, 101, 102}"
    by (auto simp: char_eq_code [of "py_lower c"])
  then have "(of_char c :: nat) \<in> {97, 98, 99, 100, 101, 102, 65, 66, 67, 68, 69, 70}"
    unfolding of_char_py_lower Let_def by (auto split: if_splits)
  then have "\<exists>d \<in> set ''abcdefABCDEF''. (of_char c :: nat) = of_char d"
    by (auto simp del: of_char_eq_iff)
  then obtain d where d: "d \<in> set ''abcdefABCDEF''" and "(of_char c :: nat) = of_char d"
    by blast
  from this(2) have "c = d" by (rule of_char_eqI)
  with d show ?thesis by blast
qed

lemma py_lower_fixed:
  "py_lower CHR '':'' = CHR '':''" "py_lower CHR ''-'' = CHR ''-''"
  "py_lower CHR ''g'' = CHR ''g''" "py_lower CHR ''s'' = CHR ''s''"
  "map py_lower ''ABCDEF'' = ''abcdef''"
  by code_simp+

lemma letter_not_space: "py_lower c \<in> set ''abcdefgs'' \<Longrightarrow> \<not> py_isspace c"
proof
  assume l: "py_lower c \<in> set ''abcdefgs''" and s: "py_isspace c"
  from l have "py_isword (py_lower c)" by (auto simp: py_isword_def)
  then have "py_isword c" by (simp add: py_isword_lower)
  with s show False by (simp add: space_not_word)
qed

lemma in_cls_sep: "in_cls flags_i (Chars '':-'') c \<longleftrightarrow> c = CHR '':'' \<or> c = CHR ''-''"
  by (simp add: flags_i_def py_lower_fixed py_lower_colon py_lower_hyphen)

lemma in_cls_letter: "in_cls flags_i (Chars ''ABCDEF'') c \<longleftrightarrow> py_lower c \<in> set ''abcdef''"
  by (simp add: flags_i_def py_lower_fixed del: list.map)

lemma in_cls_hyphen_space:
  "in_cls flags_i (Either (Chars ''-'') Space) c \<longleftrightarrow> c = CHR ''-'' \<or> py_isspace c"
  by (simp add: flags_i_def py_lower_fixed py_lower_hyphen)

lemma ci_at_first:
  assumes "ci_at t i (c # w)"
  shows "i < length t \<and> py_lower (t ! i) = py_lower c"
  using ci_at_nth [OF assms, of 0] by simp

lemma ci_at_grade_first:
  assumes "ci_at t i ''grade''"
  shows "i < length t \<and> py_lower (t ! i) = CHR ''g''"
  using ci_at_first [OF assms] by (simp add: py_lower_fixed)

lemma ci_at_self_first:
  assumes "ci_at t i ''self''"
  shows "i < length t \<and> py_lower (t ! i) = CHR ''s''"
  using ci_at_first [OF assms] by (simp add: py_lower_fixed)

lemma not_grade_after:
  assumes "j < length t" and "t ! j = CHR ''-'' \<or> py_isspace (t ! j)"
  shows "\<not> ci_at t j ''grade''"
proof
  assume "ci_at t j ''grade''"
  then have g: "py_lower (t ! j) = CHR ''g''" by (simp add: ci_at_grade_first)
  then have "\<not> py_isspace (t ! j)" by (intro letter_not_space) simp
  moreover have "t ! j \<noteq> CHR ''-''" using g by (auto simp: py_lower_def)
  ultimately show False using assms(2) by blast
qed

subsection \<open>The pattern at one position\<close>

lemma rx_match_keyword:
  "rx_match flags_i t
     (Grp 1 (Alt (Seq (Lit ''self'') (Seq (Opt (One (Either (Chars ''-'') Space))) (Lit ''grade'')))
                 (Lit ''grade''))) (i, g) =
   (case keyword_end t i of None \<Rightarrow> [] | Some k \<Rightarrow> [(k, (1, (i, k)) # g)])"
proof (cases "ci_at t i ''self''")
  case True
  then have ng: "\<not> ci_at t i ''grade''"
    using ci_at_self_first [of t i] ci_at_grade_first [of t i] by auto
  show ?thesis
  proof (cases "i + 4 < length t \<and> (t ! (i + 4) = CHR ''-'' \<or> py_isspace (t ! (i + 4)))")
    case sep: True
    then have "\<not> ci_at t (i + 4) ''grade''" by (intro not_grade_after) simp_all
    with True ng sep show ?thesis
      by (simp add: keyword_end_def lit_at_ci in_cls_hyphen_space eval_nat_numeral
          del: in_cls.simps)
  next
    case False
    with True ng show ?thesis
      by (auto simp: keyword_end_def lit_at_ci in_cls_hyphen_space eval_nat_numeral
          simp del: in_cls.simps)
  qed
next
  case False
  then show ?thesis
    by (simp add: keyword_end_def lit_at_ci eval_nat_numeral)
qed

lemma rx_seq_bnd:
  "rx_match fl t (Seq Bnd r) (i, g) = (if word_boundary t i then rx_match fl t r (i, g) else [])"
  by simp

lemma rx_seq_keyword:
  "rx_match flags_i t
     (Seq (Grp 1 (Alt (Seq (Lit ''self'')
                      (Seq (Opt (One (Either (Chars ''-'') Space))) (Lit ''grade'')))
                      (Lit ''grade''))) r) (i, g) =
   (case keyword_end t i of None \<Rightarrow> [] | Some k \<Rightarrow> rx_match flags_i t r (k, (1, (i, k)) # g))"
proof -
  have "rx_match flags_i t (Seq K r) (i, g) = concat (map (rx_match flags_i t r) (rx_match flags_i t K (i, g)))"
    for K by simp
  then show ?thesis
    by (simp only: rx_match_keyword) (simp split: option.splits)
qed

lemma sep_not_space: "c = CHR '':'' \<or> c = CHR ''-'' \<Longrightarrow> \<not> py_isspace c"
  by (auto simp: py_isspace_def)

lemma rx_seq_star_sep:
  "rx_match flags_i t (Seq (Star Space) (Seq (One (Chars '':-'')) r)) (p, g) =
     (let a = skip_space t p
      in if a < length t \<and> (t ! a = CHR '':'' \<or> t ! a = CHR ''-'')
         then rx_match flags_i t r (Suc a, g) else [])"
proof -
  have step: "rx_match flags_i t (Seq (One (Chars '':-'')) r) (q, g) =
      (if q < length t \<and> (t ! q = CHR '':'' \<or> t ! q = CHR ''-'')
       then rx_match flags_i t r (Suc q, g) else [])" for q
    by (auto simp: in_cls_sep simp del: in_cls.simps)
  have "rx_match flags_i t (Seq (Star Space) (Seq (One (Chars '':-'')) r)) (p, g) =
      rx_match flags_i t (Seq (One (Chars '':-'')) r) (skip_space t p, g)"
  proof (rule rx_star_space_then)
    fix q assume "q < length t" and "py_isspace (t ! q)"
    then have "\<not> (t ! q = CHR '':'' \<or> t ! q = CHR ''-'')"
      using sep_not_space [of "t ! q"] by blast
    then show "rx_match flags_i t (Seq (One (Chars '':-'')) r) (q, g) = []"
      by (simp only: step) auto
  qed
  then show ?thesis by (simp only: step Let_def)
qed

lemma rx_star_letter:
  "rx_match flags_i t (Seq (Star Space) (Seq (Grp 2 (One (Chars ''ABCDEF''))) Bnd)) (p, g) =
     (let b = skip_space t p
      in if b < length t \<and> py_lower (t ! b) \<in> set ''abcdef'' \<and> word_boundary t (Suc b)
         then [(Suc b, (2, (b, Suc b)) # g)] else [])"
proof -
  have step: "rx_match flags_i t (Seq (Grp 2 (One (Chars ''ABCDEF''))) Bnd) (q, g) =
      (if q < length t \<and> py_lower (t ! q) \<in> set ''abcdef'' \<and> word_boundary t (Suc q)
       then [(Suc q, (2, (q, Suc q)) # g)] else [])" for q
    by (simp add: in_cls_letter del: in_cls.simps list.set)
  have "rx_match flags_i t (Seq (Star Space) (Seq (Grp 2 (One (Chars ''ABCDEF''))) Bnd)) (p, g) =
      rx_match flags_i t (Seq (Grp 2 (One (Chars ''ABCDEF''))) Bnd) (skip_space t p, g)"
  proof (rule rx_star_space_then)
    fix q assume "q < length t" and "py_isspace (t ! q)"
    then have "py_lower (t ! q) \<notin> set ''abcdef''"
      using letter_not_space [of "t ! q"] by auto
    then show "rx_match flags_i t (Seq (Grp 2 (One (Chars ''ABCDEF''))) Bnd) (q, g) = []"
      by (simp only: step) auto
  qed
  then show ?thesis by (simp only: step Let_def)
qed

lemma rx_match_grade:
  "rx_match flags_i t grade_rx (i, []) =
     (if word_boundary t i then
        (case keyword_end t i of
           None \<Rightarrow> []
         | Some k \<Rightarrow>
             (let a = skip_space t k
              in if a < length t \<and> (t ! a = CHR '':'' \<or> t ! a = CHR ''-'')
                 then (let b = skip_space t (Suc a)
                       in if b < length t \<and> py_lower (t ! b) \<in> set ''abcdef''
                             \<and> word_boundary t (Suc b)
                          then [(Suc b, [(2, (b, Suc b)), (1, (i, k))])] else [])
                 else []))
      else [])"
  by (simp only: grade_rx_def rx_seq_bnd rx_seq_keyword rx_seq_star_sep rx_star_letter)

lemma take1_drop: "b < length t \<Longrightarrow> take (Suc 0) (drop b t) = [t ! b]"
  by (simp add: take_Suc_conv_app_nth)

lemma rx_match_grade_mention:
  "rx_match flags_i t grade_rx (i, []) =
     (case grade_mention False t i of
        None \<Rightarrow> []
      | Some m \<Rightarrow> [(Suc (snd m), [(2, (snd m, Suc (snd m))), (1, (i, fst m))])])"
proof (cases "word_boundary t i")
  case False
  then show ?thesis by (simp add: rx_match_grade grade_mention_def)
next
  case wb: True
  show ?thesis
  proof (cases "keyword_end t i")
    case None
    with wb show ?thesis by (simp add: rx_match_grade grade_mention_def)
  next
    case (Some k)
    define a where "a = skip_space t k"
    show ?thesis
    proof (cases "a < length t \<and> (t ! a = CHR '':'' \<or> t ! a = CHR ''-'')")
      case False
      then have "rx_match flags_i t grade_rx (i, []) = []"
        using wb Some unfolding rx_match_grade a_def Let_def by simp
      moreover have "grade_mention False t i = None"
        using False wb Some unfolding grade_mention_def a_def Let_def by simp
      ultimately show ?thesis by simp
    next
      case sep: True
      define b where "b = skip_space t (Suc a)"
      define ok where "ok \<longleftrightarrow> b < length t \<and> py_lower (t ! b) \<in> set ''abcdef''
                                \<and> word_boundary t (Suc b)"
      have "rx_match flags_i t grade_rx (i, []) =
              (if ok then [(Suc b, [(2, (b, Suc b)), (1, (i, k))])] else [])"
        using wb Some sep unfolding rx_match_grade a_def b_def ok_def Let_def by simp
      moreover have "grade_mention False t i = (if ok then Some (k, b) else None)"
        using wb Some sep unfolding grade_mention_def a_def b_def ok_def Let_def by simp
      ultimately show ?thesis by simp
    qed
  qed
qed

lemma grade_mention_letter:
  assumes "grade_mention so t i = Some m"
  shows "snd m < length t \<and> py_lower (t ! snd m) \<in> set ''abcdef''"
  using assms unfolding grade_mention_def Let_def
  by (auto split: if_splits option.splits simp del: list.set)

lemma grade_letter_at_None:
  "grade_letter_at False t i = None \<longleftrightarrow> rx_match flags_i t grade_rx (i, []) = []"
  by (simp add: rx_match_grade_mention grade_letter_at_def split: option.splits)

lemma grade_letter_at_Some:
  assumes "grade_letter_at False t i = Some c"
  shows "\<exists>e g. rx_match flags_i t grade_rx (i, []) = [(e, g)] \<and> group t (i, e, g) 2 = [c]
            \<and> py_lower c \<in> set ''abcdef''"
proof -
  from assms obtain m where m: "grade_mention False t i = Some m" and c: "c = t ! snd m"
    by (auto simp: grade_letter_at_def)
  from grade_mention_letter [OF m]
  have len: "snd m < length t" and l: "py_lower (t ! snd m) \<in> set ''abcdef''" by blast+
  have "group t (i, Suc (snd m), [(2, (snd m, Suc (snd m))), (1, (i, fst m))]) 2 = [t ! snd m]"
    using len by (simp add: group_def take1_drop)
  with m c l show ?thesis by (simp add: rx_match_grade_mention del: list.set)
qed

subsection \<open>The score of the first mention\<close>

lemma mapping_letters:
  "\<forall>c \<in> set ''abcdefABCDEF''.
     dict_get grade_mapping [py_upper c] (- 1) = letter_score c \<and> letter_score c \<noteq> - 1"
  by code_simp

lemma mapping_letter:
  assumes "py_lower c \<in> set ''abcdef''"
  shows "dict_get grade_mapping [py_upper c] (- 1) = letter_score c \<and> letter_score c \<noteq> - 1"
  using py_lower_letter [OF assms] mapping_letters by blast

lemma first_match_grade:
  "(case first_match flags_i grade_rx t ps of
      None \<Rightarrow> - 1
    | Some m \<Rightarrow> dict_get grade_mapping (map py_upper (group t m 2)) (- 1)) =
   (case List.map_filter (grade_letter_at False t) ps of [] \<Rightarrow> - 1 | c # _ \<Rightarrow> letter_score c)"
proof (induction ps)
  case Nil
  show ?case by (simp add: List.map_filter_simps)
next
  case (Cons p ps)
  show ?case
  proof (cases "grade_letter_at False t p")
    case None
    then have "rx_match flags_i t grade_rx (p, []) = []" by (simp add: grade_letter_at_None)
    with None Cons show ?thesis by (simp add: List.map_filter_simps)
  next
    case (Some c)
    from grade_letter_at_Some [OF Some] obtain e g
      where m: "rx_match flags_i t grade_rx (p, []) = [(e, g)]"
        and gr: "group t (p, e, g) 2 = [c]" and l: "py_lower c \<in> set ''abcdef''"
      by blast
    from m gr Some mapping_letter [OF l] show ?thesis
      by (simp add: List.map_filter_simps)
  qed
qed

lemma extract_self_grade_score_spec:
  "extract_self_grade_score t = spec_self_grade False t"
proof -
  have "extract_self_grade_score t =
      (case List.map_filter (grade_letter_at False t) [0..<Suc (length t)] of
         [] \<Rightarrow> - 1 | c # _ \<Rightarrow> letter_score c)"
    unfolding extract_self_grade_score_def re_search_def Let_def
    by (rule first_match_grade)
  then show ?thesis
    by (simp add: spec_self_grade_def first_grade_letter_def split: list.splits)
qed

lemma in_map_filter:
  "y \<in> set (List.map_filter f xs) \<Longrightarrow> \<exists>x \<in> set xs. f x = Some y"
  by (induction xs) (auto simp: List.map_filter_simps split: option.splits)

lemma first_grade_letter_Some:
  assumes "first_grade_letter False t = Some c"
  shows "py_lower c \<in> set ''abcdef''"
proof -
  from assms have "c \<in> set (List.map_filter (grade_letter_at False t) [0..<Suc (length t)])"
    by (auto simp: first_grade_letter_def split: list.splits)
  then obtain i where "grade_letter_at False t i = Some c"
    using in_map_filter by fastforce
  from grade_letter_at_Some [OF this] show ?thesis by blast
qed

text \<open>
  C2, as the code has it. \<open>extract_self_grade_score\<close> returns the score of the letter of
  the first mention of a grade, read from the left: the keyword \<open>grade\<close>, or \<open>self\<close>
  and \<open>grade\<close> with at most one hyphen or white space character between them, in any
  case and from a word boundary on, then white space, a colon or a hyphen, which is
  mandatory, white space, and one letter from A to F in either case before a word
  boundary. The score is 95 for A, 85 for B, 75 for C, 60 for D and 40 for E and F. It
  returns -1 if and only if the text has no such mention, and no other value than -1, 40,
  60, 75, 85 and 95.
\<close>

theorem extract_self_grade_score_first_mention:
  "extract_self_grade_score t = spec_self_grade False t
   \<and> (extract_self_grade_score t = - 1 \<longleftrightarrow> first_grade_letter False t = None)
   \<and> extract_self_grade_score t \<in> {- 1, 40, 60, 75, 85, 95}"
proof -
  have "spec_self_grade False t = - 1 \<longleftrightarrow> first_grade_letter False t = None"
  proof (cases "first_grade_letter False t")
    case None
    then show ?thesis by (simp add: spec_self_grade_def)
  next
    case (Some c)
    with mapping_letter [OF first_grade_letter_Some [OF Some]] show ?thesis
      by (simp add: spec_self_grade_def)
  qed
  with extract_self_grade_score_range [of t] show ?thesis
    unfolding extract_self_grade_score_spec by simp
qed

theorem extract_self_grade_score_first_mention_witness:
  "extract_self_grade_score ''Our self-grade : b, not Grade: A'' = 85
   \<and> first_grade_letter False ''Our self-grade : b, not Grade: A'' = Some CHR ''b''
   \<and> extract_self_grade_score ''degrade: A'' = - 1"
proof -
  have "spec_self_grade False ''Our self-grade : b, not Grade: A'' = 85"
    and "first_grade_letter False ''Our self-grade : b, not Grade: A'' = Some CHR ''b''"
    and "first_grade_letter False ''degrade: A'' = None"
    by code_simp+
  with extract_self_grade_score_first_mention [of "''Our self-grade : b, not Grade: A''"]
    extract_self_grade_score_first_mention [of "''degrade: A''"]
  show ?thesis by simp
qed

text \<open>
  C2, as the specification states it, fails: in the text \<open>Grade A\<close> the keyword is
  followed by the letter A with no separator, which the specification allows, and
  \<open>extract_self_grade_score\<close> returns -1.
\<close>

theorem extract_self_grade_score_separator_counterexample:
  "first_grade_letter True ''Grade A'' = Some CHR ''A''
   \<and> spec_self_grade True ''Grade A'' = 95
   \<and> extract_self_grade_score ''Grade A'' = - 1"
  by code_simp

section \<open>The title of a report\<close>

subsection \<open>The search for the first match\<close>

lemma first_match_none:
  "\<forall>p \<in> set ps. rx_match fl t r (p, []) = [] \<Longrightarrow> first_match fl r t ps = None"
  by (induction ps) simp_all

lemma first_match_first:
  assumes "\<forall>p \<in> set ps. rx_match fl t r (p, []) = []" and "rx_match fl t r (q, []) = m # ms"
  shows "first_match fl r t (ps @ q # qs) = Some (q, m)"
  using assms by (induction ps) simp_all

lemma re_search_none:
  assumes "\<And>p. p \<le> length t \<Longrightarrow> rx_match fl t r (p, []) = []"
  shows "re_search fl r t = None"
  unfolding re_search_def by (rule first_match_none) (simp add: assms)

lemma re_search_first:
  assumes "s \<le> length t" and "\<And>p. p < s \<Longrightarrow> rx_match fl t r (p, []) = []"
    and "rx_match fl t r (s, []) = m # ms"
  shows "re_search fl r t = Some (s, m)"
proof -
  have "[0..<Suc (length t)] = [0..<s] @ s # [Suc s..<Suc (length t)]"
    using assms(1) by (metis le_imp_less_Suc upt_conv_Cons upt_split3 zero_le less_or_eq_imp_le)
  then show ?thesis
    unfolding re_search_def using assms(2,3) by (simp add: first_match_first)
qed

subsection \<open>Greedy repetition\<close>

lemma run_positive:
  "0 < cls_run fl c t p \<longleftrightarrow> p < length t \<and> in_cls fl c (t ! p)"
proof (cases "p < length t")
  case True
  then have "drop p t = t ! p # drop (Suc p) t" by (simp add: Cons_nth_drop_Suc)
  then show ?thesis using True by (simp add: cls_run_def)
next
  case False
  then show ?thesis by (simp add: cls_run_def)
qed

lemma rev_upt_from_1: "0 < n \<Longrightarrow> rev [1..<Suc n] = n # rev [1..<n]"
  by simp

lemma rx_plus_none:
  "cls_run fl c t p = 0 \<Longrightarrow> rx_match fl t (Seq (Plus c) r) (p, g) = []"
  by simp

lemma rx_plus_first:
  assumes "0 < cls_run fl c t p"
    and "rx_match fl t r (p + cls_run fl c t p, g) = y # ys"
  shows "\<exists>zs. rx_match fl t (Seq (Plus c) r) (p, g) = y # zs"
proof -
  let ?n = "cls_run fl c t p"
  have "rx_match fl t (Plus c) (p, g) = (p + ?n, g) # map (\<lambda>k. (p + k, g)) (rev [1..<?n])"
    using assms(1) by simp
  then show ?thesis using assms(2) by simp
qed

lemma rx_grp_plus_first:
  assumes "0 < cls_run fl c t p"
    and "rx_match fl t r (p + cls_run fl c t p, (n, (p, p + cls_run fl c t p)) # g) = y # ys"
  shows "\<exists>zs. rx_match fl t (Seq (Grp n (Plus c)) r) (p, g) = y # zs"
proof -
  let ?n = "cls_run fl c t p"
  let ?f = "\<lambda>s'. (fst s', (n, (p, fst s')) # snd s')"
  have plus: "rx_match fl t (Plus c) (p, g) = (p + ?n, g) # map (\<lambda>k. (p + k, g)) (rev [1..<?n])"
    using assms(1) by simp
  have "rx_match fl t (Seq (Grp n (Plus c)) r) (p, g) =
          concat (map (rx_match fl t r) (map ?f (rx_match fl t (Plus c) (p, g))))"
    by (simp del: rx_match.simps(10))
  also have "\<dots> = rx_match fl t r (p + ?n, (n, (p, p + ?n)) # g)
      @ concat (map (rx_match fl t r) (map ?f (map (\<lambda>k. (p + k, g)) (rev [1..<?n]))))"
    by (simp only: plus) simp
  finally show ?thesis using assms(2) by simp
qed

subsection \<open>The heading pattern at one position\<close>

lemma newline_is_space: "py_isspace (CHR 0x0A)"
  by (simp add: py_isspace_def)

lemma hash_not_space: "\<not> py_isspace CHR ''#''"
  by (simp add: py_isspace_def)

lemma lit_at_hash: "lit_at flags_m t a ''#'' \<longleftrightarrow> a < length t \<and> t ! a = CHR ''#''"
proof (cases "a < length t")
  case True
  then show ?thesis using take1_drop [of a t] by (simp add: lit_at_def flags_m_def Suc_le_eq)
next
  case False
  then show ?thesis by (simp add: lit_at_def flags_m_def)
qed

lemma rx_seq_hash:
  "rx_match flags_m t (Seq (Lit ''#'') r) (q, g) =
     (if q < length t \<and> t ! q = CHR ''#'' then rx_match flags_m t r (Suc q, g) else [])"
  by (auto simp: lit_at_hash)

lemma rx_heading_prefix:
  "rx_match flags_m t heading_rx (s, []) =
     (if line_start flags_m t s \<and> skip_space t s < length t \<and> t ! skip_space t s = CHR ''#''
      then rx_match flags_m t (Seq (Plus Space) (Seq (Grp 1 (Plus Dot)) Eol))
             (Suc (skip_space t s), [])
      else [])"
proof -
  let ?tail = "Seq (Plus Space) (Seq (Grp 1 (Plus Dot)) Eol)"
  note step = rx_seq_hash [of t ?tail]
  have "rx_match flags_m t (Seq (Star Space) (Seq (Lit ''#'') ?tail)) (s, []) =
      rx_match flags_m t (Seq (Lit ''#'') ?tail) (skip_space t s, [])"
  proof (rule rx_star_space_then)
    fix q assume "q < length t" and "py_isspace (t ! q)"
    then have "t ! q \<noteq> CHR ''#''" using hash_not_space by auto
    then show "rx_match flags_m t (Seq (Lit ''#'') ?tail) (q, []) = []"
      by (simp only: step) simp
  qed
  then have "rx_match flags_m t (Seq (Star Space) (Seq (Lit ''#'') ?tail)) (s, []) =
      (if skip_space t s < length t \<and> t ! skip_space t s = CHR ''#''
       then rx_match flags_m t ?tail (Suc (skip_space t s), []) else [])"
    by (simp only: step)
  moreover have "rx_match flags_m t heading_rx (s, []) =
      (if line_start flags_m t s
       then rx_match flags_m t (Seq (Star Space) (Seq (Lit ''#'') ?tail)) (s, []) else [])"
    unfolding heading_rx_def by (simp del: rx_match.simps(1,9,10,11))
  ultimately show ?thesis by simp
qed

lemma no_marker_no_match:
  assumes "\<not> heading_marker_at t s"
  shows "rx_match flags_m t heading_rx (s, []) = []"
proof (cases "line_start flags_m t s \<and> skip_space t s < length t \<and> t ! skip_space t s = CHR ''#''")
  case False
  then show ?thesis by (simp only: rx_heading_prefix) simp
next
  case True
  let ?a = "skip_space t s"
  from True assms have "\<not> (Suc ?a < length t \<and> py_isspace (t ! Suc ?a))"
    by (auto simp: heading_marker_at_def Let_def)
  then have "cls_run flags_m Space t (Suc ?a) = 0"
    using run_positive [of flags_m Space t "Suc ?a"] by auto
  then have "rx_match flags_m t (Seq (Plus Space) (Seq (Grp 1 (Plus Dot)) Eol)) (Suc ?a, []) = []"
    by (rule rx_plus_none)
  then show ?thesis by (simp only: rx_heading_prefix) simp
qed

lemma rest_of_line_run: "cls_run fl Dot t b = length (rest_of_line t b)"
proof -
  have "in_cls fl Dot = (\<lambda>c. c \<noteq> CHR 0x0A)" by (intro ext) simp
  then show ?thesis by (simp add: cls_run_def rest_of_line_def)
qed

lemma line_end_after_rest:
  assumes "b \<le> length t"
  shows "line_end flags_m t (b + length (rest_of_line t b))"
proof (cases "b + length (rest_of_line t b) < length t")
  case True
  let ?xs = "drop b t"
  from True have "length (takeWhile (\<lambda>c. c \<noteq> CHR 0x0A) ?xs) < length ?xs"
    by (simp add: rest_of_line_def)
  then have "\<not> (?xs ! length (takeWhile (\<lambda>c. c \<noteq> CHR 0x0A) ?xs) \<noteq> CHR 0x0A)"
    by (rule nth_length_takeWhile)
  then have "t ! (b + length (rest_of_line t b)) = CHR 0x0A"
    using True by (simp add: rest_of_line_def)
  with True show ?thesis by (simp add: line_end_def flags_m_def)
next
  case False
  have "length (rest_of_line t b) \<le> length t - b"
    unfolding rest_of_line_def using length_takeWhile_le [of _ "drop b t"] by simp
  with False assms have "b + length (rest_of_line t b) = length t" by arith
  then show ?thesis by (simp add: line_end_def)
qed

lemma marker_match:
  assumes "heading_marker_at t s" and "content_start t s < length t"
  shows "\<exists>ms. rx_match flags_m t heading_rx (s, []) =
            (content_start t s + length (rest_of_line t (content_start t s)),
             [(1, (content_start t s,
                   content_start t s + length (rest_of_line t (content_start t s))))]) # ms"
proof -
  let ?a = "skip_space t s" and ?b = "content_start t s"
  let ?e = "?b + length (rest_of_line t ?b)"
  from assms(1) have ls: "line_start flags_m t s" and a: "Suc ?a < length t"
    and hash: "t ! ?a = CHR ''#''" and sp: "py_isspace (t ! Suc ?a)"
    by (simp_all add: heading_marker_at_def Let_def)
  have b: "?b = Suc ?a + cls_run flags_m Space t (Suc ?a)"
    by (simp add: content_start_def skip_space_run [where fl = flags_m])
  have run1: "0 < cls_run flags_m Space t (Suc ?a)"
    using a sp by (simp add: run_positive)
  have "\<not> py_isspace (t ! ?b)"
    using assms(2) unfolding content_start_def by (rule after_space)
  then have "t ! ?b \<noteq> CHR 0x0A" using newline_is_space by auto
  then have run2: "0 < cls_run flags_m Dot t ?b"
    using assms(2) by (simp add: run_positive)
  have "rx_match flags_m t Eol (?e, [(1, (?b, ?e))]) = [(?e, [(1, (?b, ?e))])]"
    using line_end_after_rest [of ?b t] assms(2) by simp
  then have "\<exists>zs. rx_match flags_m t (Seq (Grp 1 (Plus Dot)) Eol) (?b, []) =
      (?e, [(1, (?b, ?e))]) # zs"
    using run2 by (intro rx_grp_plus_first) (simp_all only: rest_of_line_run)
  then obtain zs where "rx_match flags_m t (Seq (Grp 1 (Plus Dot)) Eol)
      (Suc ?a + cls_run flags_m Space t (Suc ?a), []) = (?e, [(1, (?b, ?e))]) # zs"
    unfolding b [symmetric] by blast
  from rx_plus_first [OF run1 this]
  obtain ms where "rx_match flags_m t (Seq (Plus Space) (Seq (Grp 1 (Plus Dot)) Eol))
      (Suc ?a, []) = (?e, [(1, (?b, ?e))]) # ms" by blast
  moreover have "skip_space t s < length t" using a by simp
  ultimately show ?thesis using ls hash by (simp only: rx_heading_prefix) simp
qed

subsection \<open>Trimming\<close>

lemma py_strip_nonempty:
  assumes "s \<noteq> []" and "\<not> py_isspace (hd s)"
  shows "py_strip s \<noteq> []"
proof -
  from assms have "dropWhile py_isspace s = s" by (cases s) simp_all
  moreover have "dropWhile py_isspace (rev s) \<noteq> []"
  proof
    assume "dropWhile py_isspace (rev s) = []"
    then have "\<forall>x \<in> set (rev s). py_isspace x" by (simp add: dropWhile_eq_Nil_conv)
    moreover from assms(1) have "hd s \<in> set (rev s)" by simp
    ultimately show False using assms(2) by blast
  qed
  ultimately show ?thesis by (simp add: py_strip_def)
qed

lemma rest_of_line_hd:
  assumes "b < length t" and "t ! b \<noteq> CHR 0x0A"
  shows "rest_of_line t b \<noteq> [] \<and> hd (rest_of_line t b) = t ! b"
proof -
  from assms(1) have "drop b t = t ! b # drop (Suc b) t" by (simp add: Cons_nth_drop_Suc)
  then show ?thesis using assms(2) by (simp add: rest_of_line_def)
qed

lemma group_rest_of_line:
  "group t (s, b + length (rest_of_line t b), [(1, (b, b + length (rest_of_line t b)))]) 1 =
     rest_of_line t b"
  by (simp add: group_def rest_of_line_def takeWhile_eq_take [symmetric])

lemma path_stem_nonempty: "path_name p \<noteq> [] \<Longrightarrow> path_stem p \<noteq> []"
  by (auto simp: path_stem_def Let_def split: option.splits)

lemma title_load_report: "title (load_report e p md) = heading_title md (path_stem p)"
  by (simp add: load_report_def Let_def)

subsection \<open>What the heading pattern matches\<close>

lemma heading_title_fallback:
  assumes "\<And>s. s \<le> length md \<Longrightarrow> \<not> heading_marker_at md s"
  shows "heading_title md stem = stem"
proof -
  have "re_search flags_m heading_rx md = None"
    using assms by (intro re_search_none no_marker_no_match)
  then show ?thesis by (simp add: heading_title_def)
qed

lemma heading_title_first:
  assumes "heading_marker_at md s" and "\<And>s'. s' < s \<Longrightarrow> \<not> heading_marker_at md s'"
    and "content_start md s < length md"
  shows "heading_title md stem = py_strip (rest_of_line md (content_start md s))
       \<and> heading_title md stem \<noteq> []"
proof -
  let ?b = "content_start md s"
  let ?e = "?b + length (rest_of_line md ?b)"
  from marker_match [OF assms(1,3)] obtain ms
    where m: "rx_match flags_m md heading_rx (s, []) = (?e, [(1, (?b, ?e))]) # ms" by blast
  from assms(1) have "s \<le> length md"
    by (auto simp: heading_marker_at_def line_start_def)
  then have "re_search flags_m heading_rx md = Some (s, ?e, [(1, (?b, ?e))])"
    using assms(2) m by (intro re_search_first no_marker_no_match) simp_all
  then have t: "heading_title md stem = py_strip (rest_of_line md ?b)"
    using group_rest_of_line [of md s ?b] by (simp add: heading_title_def)
  have "\<not> py_isspace (md ! ?b)"
    using assms(3) unfolding content_start_def by (rule after_space)
  moreover from this have "md ! ?b \<noteq> CHR 0x0A" using newline_is_space by auto
  ultimately have "py_strip (rest_of_line md ?b) \<noteq> []"
    using rest_of_line_hd [OF assms(3)] by (intro py_strip_nonempty) simp_all
  with t show ?thesis by simp
qed

text \<open>
  C6. The specification takes the title to be the trimmed content of the first line that
  is a top-level heading, and otherwise the name of the file without its extension, so
  that no record has an empty title; \<open>spec_title\<close> is this title. The code does not
  compute it for these three texts. For a hash and two spaces the title of the record is
  empty, where the file name \<open>r\<close> is expected. For the two lines \<open>#\<close> and \<open>hello\<close>,
  none of which is a heading, it is \<open>hello\<close>. For the two lines \<open>#\<close> followed by one
  space and \<open># Real\<close> it is \<open># Real\<close>, where \<open>Real\<close> is expected. In the pattern the
  white space classes run over the end of the line, and backtracking lets the group
  capture a white space character.
\<close>

theorem load_report_title_failing_inputs:
  "title (load_report env0 [''r.md''] ''#  '') = []
   \<and> spec_title ''#  '' (path_stem [''r.md'']) = ''r''
   \<and> title (load_report env0 [''r.md''] (CHR ''#'' # CHR 0x0A # ''hello'')) = ''hello''
   \<and> spec_title (CHR ''#'' # CHR 0x0A # ''hello'') (path_stem [''r.md'']) = ''r''
   \<and> title (load_report env0 [''r.md''] (''# '' @ CHR 0x0A # ''# Real'')) = ''# Real''
   \<and> spec_title (''# '' @ CHR 0x0A # ''# Real'') (path_stem [''r.md'']) = ''Real''"
proof -
  have "heading_title ''#  '' (path_stem [''r.md'']) = []"
    and "spec_title ''#  '' (path_stem [''r.md'']) = ''r''"
    and "heading_title (CHR ''#'' # CHR 0x0A # ''hello'') (path_stem [''r.md'']) = ''hello''"
    and "spec_title (CHR ''#'' # CHR 0x0A # ''hello'') (path_stem [''r.md'']) = ''r''"
    and "heading_title (''# '' @ CHR 0x0A # ''# Real'') (path_stem [''r.md'']) = ''# Real''"
    and "spec_title (''# '' @ CHR 0x0A # ''# Real'') (path_stem [''r.md'']) = ''Real''"
    by code_simp+
  then show ?thesis by (simp only: title_load_report)
qed

end
